theory Spec2Isabelle
  imports Complex_Main "HOL-Library.Char_ord"
begin

section \<open>The DICOM to NIfTI batch conversion driver (Programs/dicomtonifti.cxx)\<close>

text \<open>
  A shallow embedding of the command line program \<^verbatim>\<open>dicomtonifti\<close>.  Pure helpers
  (the string sanitiser, the file name synthesiser, the slice order test) are HOL functions.
  The classes of VTK, KWSys and of the DICOM library that the program calls are collaborators:
  each is a field of the record \<open>env\<close> below, so every theorem holds for whatever they
  compute.  Output, directory creation and the calls made on collaborators are recorded as a
  list of events, and \<^verbatim>\<open>exit(1)\<close> is an outcome of its own.
\<close>

subsection \<open>Characters (the C locale of \<^verbatim>\<open>ctype.h\<close>)\<close>

text \<open>
  The program never calls \<^verbatim>\<open>setlocale\<close>, so \<^verbatim>\<open>isalnum\<close> and \<^verbatim>\<open>tolower\<close> are
  the ones of the C locale: the letters and digits are the ASCII ones, and a byte above 127
  is neither.
\<close>

definition isdigit_c :: "char \<Rightarrow> bool" where
  "isdigit_c c = (48 \<le> (of_char c :: nat) \<and> (of_char c :: nat) \<le> 57)"

definition isupper_c :: "char \<Rightarrow> bool" where
  "isupper_c c = (65 \<le> (of_char c :: nat) \<and> (of_char c :: nat) \<le> 90)"

definition islower_c :: "char \<Rightarrow> bool" where
  "islower_c c = (97 \<le> (of_char c :: nat) \<and> (of_char c :: nat) \<le> 122)"

definition isalnum_c :: "char \<Rightarrow> bool" where
  "isalnum_c c = (isdigit_c c \<or> isupper_c c \<or> islower_c c)"

definition tolower_c :: "char \<Rightarrow> char" where
  "tolower_c c = (if isupper_c c then char_of ((of_char c :: nat) + 32) else c)"

subsection \<open>The string sanitiser\<close>

text \<open>\<^verbatim>\<open>std::string::resize(m)\<close>: truncate, or pad with NUL characters.\<close>

definition resize :: "nat \<Rightarrow> string \<Rightarrow> string" where
  "resize m s = take m s @ replicate (m - length s) (char_of (0::nat))"

text \<open>
  The loop of \<^verbatim>\<open>dicomtonifti_safe_string\<close>: the characters still to be read, the index
  \<open>i\<close> of the next one, the position \<open>m\<close> after the last alphanumeric character seen, and
  the output built so far.
\<close>

fun safe_string_loop :: "string \<Rightarrow> nat \<Rightarrow> nat \<Rightarrow> string \<Rightarrow> nat \<times> string" where
  "safe_string_loop [] i m out = (m, out)"
| "safe_string_loop (c # cs) i m out =
     (if \<not> isalnum_c c
      then safe_string_loop cs (i + 1) m (out @ [CHR ''_''])
      else safe_string_loop cs (i + 1) (i + 1) (out @ [c]))"

definition dicomtonifti_safe_string :: "string \<Rightarrow> string" where
  "dicomtonifti_safe_string str =
     (let (m, out) = safe_string_loop str 0 0 [];
          out = resize m out
      in if length out = 0 then ''UNKNOWN'' else out)"

text \<open>The words of the specification: the character that replaces a character.\<close>

definition underscore_substituted :: "string \<Rightarrow> string" where
  "underscore_substituted s = map (\<lambda>c. if isalnum_c c then c else CHR ''_'') s"

definition allowed_char :: "char \<Rightarrow> bool" where
  "allowed_char c = (isalnum_c c \<or> c = CHR ''_'')"

subsection \<open>Options, collaborators and observable events\<close>

text \<open>The structure \<^verbatim>\<open>dicomtonifti_options\<close>.\<close>

record dicomtonifti_options =
  compress :: bool
  recurse :: bool
  follow_symlinks :: bool
  no_slice_reordering :: bool
  no_row_reordering :: bool
  no_column_reordering :: bool
  no_qform :: bool
  no_sform :: bool
  batch :: bool
  silent :: bool
  verbose :: bool
  output' :: "string option"

text \<open>The error codes of \<^verbatim>\<open>vtkErrorCode\<close> that the program tells apart.\<close>

datatype errorcode =
    NoError
  | FileNotFoundError
  | CannotOpenFileError
  | UnrecognizedFileTypeError
  | PrematureEndOfFileError
  | FileFormatError
  | NoFileNameError
  | OutOfDiskSpaceError
  | OtherError nat

text \<open>
  \<^verbatim>\<open>vtkMatrix4x4\<close>: the array \<^verbatim>\<open>double Element[4][4]\<close>, as a list of rows.  The
  doubles are read as the real numbers they stand for.
\<close>

type_synonym matrix4x4 = "real list list"

text \<open>The six attributes that \<^verbatim>\<open>dicomtonifti_make_filename\<close> reads, as strings.\<close>

record metadata =
  PatientName :: string
  PatientID :: string
  StudyDescription :: string
  StudyID :: string
  SeriesDescription :: string
  SeriesNumber :: string

text \<open>What the program reads back from the reader, the sorter and the parser.\<close>

record reader_output =
  reader_ErrorCode :: errorcode
  reader_InternalFileName :: "string option"
  FileIndexArray :: "int list"
  PatientMatrix :: matrix4x4

record sorter_output =
  sorter_ErrorCode :: errorcode
  sorter_InternalFileName :: "string option"
  OutputFileNames :: "string list"
  NumberOfStudies :: int
  FirstSeriesInStudy :: "int \<Rightarrow> int"
  NumberOfSeriesInStudy :: "int \<Rightarrow> int"
  FileNamesForSeries :: "int \<Rightarrow> string list"

record parser_output =
  parser_ErrorCode :: errorcode
  parser_MetaData :: metadata

text \<open>The calls that \<^verbatim>\<open>dicomtonifti_convert_one\<close> makes on the writer before it writes.\<close>

datatype writer_call =
    SetFileName string
  | SetQFac real
  | SetQFormMatrix matrix4x4
  | SetSFormMatrix matrix4x4
  | SetInputConnection

text \<open>
  The collaborators: the file system as KWSys shows it, the DICOM sorter, parser, reader and
  coordinate converter, the two operations of \<^verbatim>\<open>vtkMatrix4x4\<close> and the NIfTI writer.
  \<open>Directory_Load\<close> gives the path and the entries of a directory that can be opened.
  Each is a function of its arguments: the answers of the file system and of the other
  collaborators do not change while the program runs.
\<close>

record env =
  FileIsDirectory :: "string \<Rightarrow> bool"
  FileIsSymlink :: "string \<Rightarrow> bool"
  GetRealPath :: "string \<Rightarrow> string"
  Directory_Load :: "string \<Rightarrow> (string \<times> string list) option"
  SplitPath :: "string \<Rightarrow> string list"
  JoinPath :: "string list \<Rightarrow> string"
  GetParentDirectory :: "string \<Rightarrow> string"
  MakeDirectory_ok :: "string \<Rightarrow> bool"
  sorter :: "string list \<Rightarrow> sorter_output"
  parser :: "string \<Rightarrow> parser_output"
  reader :: "string list \<Rightarrow> reader_output"
  converter :: "reader_output \<Rightarrow> bool \<Rightarrow> bool \<Rightarrow> matrix4x4"
  Invert :: "matrix4x4 \<Rightarrow> matrix4x4"
  Multiply4x4 :: "matrix4x4 \<Rightarrow> matrix4x4 \<Rightarrow> matrix4x4"
  writer :: "string list \<Rightarrow> writer_call list \<Rightarrow> errorcode"

text \<open>What the process does that can be seen from outside, in order.\<close>

datatype event =
    Stdout string
  | Stderr string
  | MakeDirectory string
  | LoadDirectory string
  | SorterUpdate "string list"
  | ParserUpdate string
  | ReaderUpdate "string list"
  | WriterWrite "writer_call list"

text \<open>
  A function of the program either returns to its caller, or ends the process with
  \<^verbatim>\<open>exit\<close>, or reads element 0 of an empty array.  Each outcome keeps the events so far.
\<close>

datatype 'a outcome =
    Running 'a
  | Exited int "event list"
  | UndefinedBehaviour "event list"

definition newline :: string where
  "newline = [CHR 0x0A]"

subsection \<open>Error reporting\<close>

text \<open>
  \<^verbatim>\<open>dicomtonifti_check_error\<close>, given the file name and the error code that the object
  reports (a null file name is printed as the empty string).
\<close>

definition dicomtonifti_check_error ::
  "string option \<Rightarrow> errorcode \<Rightarrow> event list \<Rightarrow> event list outcome" where
  "dicomtonifti_check_error fn errcode tr =
     (let filename = (case fn of None \<Rightarrow> [] | Some f \<Rightarrow> f) in
      case errcode of
        NoError \<Rightarrow> Running tr
      | FileNotFoundError \<Rightarrow>
          Exited 1 (tr @ [Stderr (''File not found: '' @ filename @ newline)])
      | CannotOpenFileError \<Rightarrow>
          Exited 1 (tr @ [Stderr (''Cannot open file: '' @ filename @ newline)])
      | UnrecognizedFileTypeError \<Rightarrow>
          Exited 1 (tr @ [Stderr (''Unrecognized file type: '' @ filename @ newline)])
      | PrematureEndOfFileError \<Rightarrow>
          Exited 1 (tr @ [Stderr (''File is truncated: '' @ filename @ newline)])
      | FileFormatError \<Rightarrow>
          Exited 1 (tr @ [Stderr (''Bad DICOM file: '' @ filename @ newline)])
      | NoFileNameError \<Rightarrow>
          Exited 1 (tr @ [Stderr (''Output filename could not be used: '' @ filename @ newline)])
      | OutOfDiskSpaceError \<Rightarrow>
          Exited 1 (tr @ [Stderr (''Out of disk space while writing file: '' @ filename @ newline)])
      | OtherError n \<Rightarrow>
          Exited 1 (tr @ [Stderr (''An unknown error occurred.'' @ newline)]))"

subsection \<open>The output file name\<close>

definition dicomtonifti_make_filename :: "env \<Rightarrow> string \<Rightarrow> metadata \<Rightarrow> string" where
  "dicomtonifti_make_filename e outpath meta =
     (let patientName = dicomtonifti_safe_string (PatientName meta);
          patientID = dicomtonifti_safe_string (PatientID meta);
          studyDesc = dicomtonifti_safe_string (StudyDescription meta);
          studyID = dicomtonifti_safe_string (StudyID meta);
          seriesDesc = dicomtonifti_safe_string (SeriesDescription meta);
          seriesNumber = dicomtonifti_safe_string (SeriesNumber meta);
          patientID = (if patientName \<noteq> ''UNKNOWN'' then patientName else patientID);
          sv = SplitPath e outpath;
          sv = sv @ [patientID];
          sv = sv @ [studyDesc @ ''-'' @ studyID];
          sv = sv @ [seriesDesc @ ''_'' @ seriesNumber @ ''.nii'']
      in JoinPath e sv)"

subsection \<open>One series: the slice order test and the writer\<close>

text \<open>
  The reader's test: \<^verbatim>\<open>GetMaxId\<close> is the number of values minus one, and the two values
  are only read when it is positive.
\<close>

definition slicesReordered_by_reader :: "int list \<Rightarrow> bool" where
  "slicesReordered_by_reader fileIndices =
     (let maxId = int (length fileIndices) - 1
      in maxId > 0 \<and> fileIndices ! 0 > fileIndices ! nat maxId)"

definition GetElement :: "matrix4x4 \<Rightarrow> nat \<Rightarrow> nat \<Rightarrow> real" where
  "GetElement M i j = M ! i ! j"

definition SetElement :: "matrix4x4 \<Rightarrow> nat \<Rightarrow> nat \<Rightarrow> real \<Rightarrow> matrix4x4" where
  "SetElement M i j v = M[i := (M ! i)[j := v]]"

text \<open>One round of the loop over \<open>j\<close> that undoes the change of sign of x and y.\<close>

definition negate_column :: "nat \<Rightarrow> matrix4x4 \<Rightarrow> matrix4x4" where
  "negate_column j M =
     (let M = SetElement M 0 j (- GetElement M 0 j)
      in SetElement M 1 j (- GetElement M 1 j))"

definition checkMatrix :: "env \<Rightarrow> matrix4x4 \<Rightarrow> matrix4x4 \<Rightarrow> matrix4x4" where
  "checkMatrix e patientMatrix rasMatrix =
     (let M = patientMatrix;
          M = fold negate_column [0..<4] M;
          M = Invert e M
      in Multiply4x4 e M rasMatrix)"

text \<open>
  The literal \<^verbatim>\<open>-0.1\<close> of the source is a double: the one nearest to -1/10, which is
  this number (the mantissa \<^verbatim>\<open>0x1999999999999A\<close> over \<open>2 ^ 56\<close>).  On finite doubles
  the comparison of the source is the comparison of the real numbers they stand for.
\<close>

definition double_minus_0_1 :: real where
  "double_minus_0_1 = - (3602879701896397 / 36028797018963968)"

definition slicesReordered_by_converter :: "env \<Rightarrow> matrix4x4 \<Rightarrow> matrix4x4 \<Rightarrow> bool" where
  "slicesReordered_by_converter e patientMatrix rasMatrix =
     (GetElement (checkMatrix e patientMatrix rasMatrix) 2 2 < double_minus_0_1)"

text \<open>The value of \<^verbatim>\<open>slicesReordered\<close> after the exclusive or.\<close>

definition slicesReordered ::
  "env \<Rightarrow> dicomtonifti_options \<Rightarrow> reader_output \<Rightarrow> bool" where
  "slicesReordered e options rd =
     (let reordered = slicesReordered_by_reader (FileIndexArray rd);
          rasMatrix = converter e rd (\<not> no_row_reordering options)
                        (\<not> no_column_reordering options)
      in reordered \<noteq> slicesReordered_by_converter e (PatientMatrix rd) rasMatrix)"

definition prepare_writer ::
  "dicomtonifti_options \<Rightarrow> string \<Rightarrow> bool \<Rightarrow> matrix4x4 \<Rightarrow> writer_call list" where
  "prepare_writer options outfile reordered rasMatrix =
     [SetFileName outfile]
     @ (if no_slice_reordering options \<and> reordered then [SetQFac (- 1)] else [])
     @ (if \<not> no_qform options then [SetQFormMatrix rasMatrix] else [])
     @ (if \<not> no_sform options then [SetSFormMatrix rasMatrix] else [])
     @ [SetInputConnection]"

definition dicomtonifti_convert_one ::
  "env \<Rightarrow> dicomtonifti_options \<Rightarrow> string list \<Rightarrow> string \<Rightarrow> event list
     \<Rightarrow> event list outcome" where
  "dicomtonifti_convert_one e options a outfile tr =
     (let rd = reader e a in
      case dicomtonifti_check_error (reader_InternalFileName rd) (reader_ErrorCode rd)
             (tr @ [ReaderUpdate a]) of
        Running tr \<Rightarrow>
          (let rasMatrix = converter e rd (\<not> no_row_reordering options)
                             (\<not> no_column_reordering options);
               calls = prepare_writer options outfile (slicesReordered e options rd) rasMatrix
           in dicomtonifti_check_error (Some outfile) (writer e a calls)
                (tr @ [WriterWrite calls]))
      | Exited s tr \<Rightarrow> Exited s tr
      | UndefinedBehaviour tr \<Rightarrow> UndefinedBehaviour tr)"

subsection \<open>A list of files: single output and batch mode\<close>

text \<open>The output file of the single file mode.\<close>

definition single_outfile :: "dicomtonifti_options \<Rightarrow> string \<Rightarrow> string" where
  "single_outfile options outpath =
     (let outfile = outpath in
      if compress options then
        (let os = length outpath in
         if os > 2 \<and>
            (outpath ! (os - 3) \<noteq> CHR ''.'' \<or>
             tolower_c (outpath ! (os - 2)) \<noteq> CHR ''g'' \<or>
             tolower_c (outpath ! (os - 1)) \<noteq> CHR ''z'')
         then outfile @ ''.gz'' else outfile)
      else outfile)"

text \<open>The output file of series \<open>k\<close> in batch mode, from the metadata of its first file.\<close>

definition batch_outfile :: "env \<Rightarrow> dicomtonifti_options \<Rightarrow> string \<Rightarrow> metadata \<Rightarrow> string" where
  "batch_outfile e options outpath meta =
     (let outfile = dicomtonifti_make_filename e outpath meta
      in if compress options then outfile @ ''.gz'' else outfile)"

text \<open>The body of the loop over the series \<open>k\<close> of study \<open>j\<close>.\<close>

definition series_body ::
  "env \<Rightarrow> dicomtonifti_options \<Rightarrow> sorter_output \<Rightarrow> string \<Rightarrow> int \<Rightarrow> int \<Rightarrow> event list
     \<Rightarrow> event list outcome" where
  "series_body e options so outpath j k tr =
     (let a = FileNamesForSeries so k in
      case a of
        [] \<Rightarrow> UndefinedBehaviour tr
      | fname # _ \<Rightarrow>
          (let p = parser e fname in
           case dicomtonifti_check_error (Some fname) (parser_ErrorCode p)
                  (tr @ [ParserUpdate fname]) of
             Running tr \<Rightarrow>
               (let outfile = batch_outfile e options outpath (parser_MetaData p);
                    made =
                      (if k = FirstSeriesInStudy so j then
                         (let dirname = GetParentDirectory e outfile in
                          if \<not> MakeDirectory_ok e dirname
                          then Exited 1 (tr @ [MakeDirectory dirname,
                                 Stderr (''Cannot create directory: '' @ dirname @ newline)])
                          else Running (tr @ [MakeDirectory dirname]))
                       else Running tr)
                in case made of
                     Running tr \<Rightarrow>
                       (let tr = (if \<not> silent options then tr @ [Stdout (outfile @ newline)]
                                  else tr)
                        in dicomtonifti_convert_one e options a outfile tr)
                   | Exited s tr \<Rightarrow> Exited s tr
                   | UndefinedBehaviour tr \<Rightarrow> UndefinedBehaviour tr)
           | Exited s tr \<Rightarrow> Exited s tr
           | UndefinedBehaviour tr \<Rightarrow> UndefinedBehaviour tr))"

function series_loop ::
  "env \<Rightarrow> dicomtonifti_options \<Rightarrow> sorter_output \<Rightarrow> string \<Rightarrow> int \<Rightarrow> int \<Rightarrow> int
     \<Rightarrow> event list \<Rightarrow> event list outcome" where
  "series_loop e options so outpath j k n tr =
     (if k < n then
        (case series_body e options so outpath j k tr of
           Running tr \<Rightarrow> series_loop e options so outpath j (k + 1) n tr
         | Exited s tr \<Rightarrow> Exited s tr
         | UndefinedBehaviour tr \<Rightarrow> UndefinedBehaviour tr)
      else Running tr)"
  by pat_completeness auto
termination
  by (relation "measure (\<lambda>(e, options, so, outpath, j, k, n, tr). nat (n - k))") auto

declare series_loop.simps [simp del]

function study_loop ::
  "env \<Rightarrow> dicomtonifti_options \<Rightarrow> sorter_output \<Rightarrow> string \<Rightarrow> int \<Rightarrow> int
     \<Rightarrow> event list \<Rightarrow> event list outcome" where
  "study_loop e options so outpath j m tr =
     (if j < m then
        (let k = FirstSeriesInStudy so j;
             n = NumberOfSeriesInStudy so j;
             n = n + k
         in case series_loop e options so outpath j k n tr of
              Running tr \<Rightarrow> study_loop e options so outpath (j + 1) m tr
            | Exited s tr \<Rightarrow> Exited s tr
            | UndefinedBehaviour tr \<Rightarrow> UndefinedBehaviour tr)
      else Running tr)"
  by pat_completeness auto
termination
  by (relation "measure (\<lambda>(e, options, so, outpath, j, m, tr). nat (m - j))") auto

declare study_loop.simps [simp del]

definition dicomtonifti_convert_files ::
  "env \<Rightarrow> dicomtonifti_options \<Rightarrow> string list \<Rightarrow> string \<Rightarrow> event list
     \<Rightarrow> event list outcome" where
  "dicomtonifti_convert_files e options files outpath tr =
     (let so = sorter e files in
      case dicomtonifti_check_error (sorter_InternalFileName so) (sorter_ErrorCode so)
             (tr @ [SorterUpdate files]) of
        Running tr \<Rightarrow>
          (if \<not> batch options then
             dicomtonifti_convert_one e options (OutputFileNames so)
               (single_outfile options outpath) tr
           else study_loop e options so outpath 0 (NumberOfStudies so) tr)
      | Exited s tr \<Rightarrow> Exited s tr
      | UndefinedBehaviour tr \<Rightarrow> UndefinedBehaviour tr)"

subsection \<open>Files and directories\<close>

text \<open>A name is taken for a directory by its last character or by the file system.\<close>

definition names_directory :: "env \<Rightarrow> string \<Rightarrow> bool" where
  "names_directory e fname =
     (let m = length fname in
      (m > 1 \<and> (fname ! (m - 1) = CHR ''/'' \<or> fname ! (m - 1) = CHR 0x5C))
      \<or> FileIsDirectory e fname)"

text \<open>The first loop: the directories to expand and the files to convert.\<close>

fun look_for_directories ::
  "env \<Rightarrow> dicomtonifti_options \<Rightarrow> string set \<Rightarrow> string list
     \<Rightarrow> string list \<times> string list \<Rightarrow> string list \<times> string list" where
  "look_for_directories e options pastdirs [] (directories, newfiles) =
     (directories, newfiles)"
| "look_for_directories e options pastdirs (fname # files) (directories, newfiles) =
     (if names_directory e fname then
        (if pastdirs = {} \<or>
            (recurse options \<and> (follow_symlinks options \<or> \<not> FileIsSymlink e fname))
         then look_for_directories e options pastdirs files (directories @ [fname], newfiles)
         else look_for_directories e options pastdirs files (directories, newfiles))
      else look_for_directories e options pastdirs files (directories, newfiles @ [fname]))"

text \<open>The entries of a loaded directory that do not start with a dot, as full paths.\<close>

definition not_hidden :: "string \<Rightarrow> bool" where
  "not_hidden dirfile = (case dirfile of [] \<Rightarrow> True | c # _ \<Rightarrow> c \<noteq> CHR ''.'')"

definition directory_files :: "env \<Rightarrow> string \<Rightarrow> string list \<Rightarrow> string list" where
  "directory_files e path entries =
     (let pathparts = SplitPath e path
      in map (\<lambda>dirfile. JoinPath e (pathparts @ [dirfile])) (filter not_hidden entries))"

text \<open>
  The second loop, over the directories.  \<open>recursion\<close> stands for the recursive call of
  \<^verbatim>\<open>dicomtonifti_files_and_dirs\<close>; it gives \<open>None\<close> when it does not return.
\<close>

fun directories_loop ::
  "env \<Rightarrow> (string list \<Rightarrow> string set \<times> event list \<Rightarrow> (string set \<times> event list) outcome option)
     \<Rightarrow> string list \<Rightarrow> string set \<times> event list
     \<Rightarrow> (string set \<times> event list) outcome option" where
  "directories_loop e recursion [] (pastdirs, tr) = Some (Running (pastdirs, tr))"
| "directories_loop e recursion (dirname # directories) (pastdirs, tr) =
     (let realpath = GetRealPath e dirname in
      if realpath \<in> pastdirs then directories_loop e recursion directories (pastdirs, tr)
      else
        (let pastdirs = insert realpath pastdirs in
         case Directory_Load e dirname of
           None \<Rightarrow>
             directories_loop e recursion directories
               (pastdirs, tr @ [LoadDirectory dirname,
                  Stderr (''Could not open directory '' @ dirname @ newline)])
         | Some (path, entries) \<Rightarrow>
             (case recursion (directory_files e path entries)
                     (pastdirs, tr @ [LoadDirectory dirname]) of
                None \<Rightarrow> None
              | Some (Running st) \<Rightarrow> directories_loop e recursion directories st
              | Some (Exited s tr) \<Rightarrow> Some (Exited s tr)
              | Some (UndefinedBehaviour tr) \<Rightarrow> Some (UndefinedBehaviour tr))))"

text \<open>
  \<^verbatim>\<open>dicomtonifti_files_and_dirs\<close>.  The first argument bounds the depth of the recursion:
  \<open>None\<close> means that the bound was reached.
\<close>

primrec dicomtonifti_files_and_dirs ::
  "nat \<Rightarrow> env \<Rightarrow> dicomtonifti_options \<Rightarrow> string \<Rightarrow> string list \<Rightarrow> string set \<times> event list
     \<Rightarrow> (string set \<times> event list) outcome option" where
  "dicomtonifti_files_and_dirs 0 e options outpath files st = None"
| "dicomtonifti_files_and_dirs (Suc depth) e options outpath files st =
     (let pastdirs = fst st; tr = snd st;
          (directories, newfiles) = look_for_directories e options pastdirs files ([], [])
      in case (if newfiles \<noteq> []
               then dicomtonifti_convert_files e options newfiles outpath tr
               else Running tr) of
           Running tr \<Rightarrow>
             directories_loop e (dicomtonifti_files_and_dirs depth e options outpath)
               directories (pastdirs, tr)
         | Exited s tr \<Rightarrow> Some (Exited s tr)
         | UndefinedBehaviour tr \<Rightarrow> Some (UndefinedBehaviour tr))"

text \<open>The call made by \<^verbatim>\<open>main\<close>: no directory visited, nothing done yet.\<close>

definition main_files_and_dirs ::
  "nat \<Rightarrow> env \<Rightarrow> dicomtonifti_options \<Rightarrow> string \<Rightarrow> string list
     \<Rightarrow> (string set \<times> event list) outcome option" where
  "main_files_and_dirs depth e options outpath files =
     dicomtonifti_files_and_dirs depth e options outpath files ({}, [])"

subsection \<open>Readings of the events\<close>

text \<open>The directories that were loaded, and the directories that were created.\<close>

fun loaded :: "event list \<Rightarrow> string list" where
  "loaded [] = []"
| "loaded (LoadDirectory d # tr) = d # loaded tr"
| "loaded (x # tr) = loaded tr"

fun created :: "event list \<Rightarrow> string list" where
  "created [] = []"
| "created (MakeDirectory d # tr) = d # created tr"
| "created (x # tr) = created tr"

fun is_Stderr :: "event \<Rightarrow> bool" where
  "is_Stderr (Stderr m) = True"
| "is_Stderr x = False"

fun outcome_trace :: "(string set \<times> event list) outcome \<Rightarrow> event list" where
  "outcome_trace (Running st) = snd st"
| "outcome_trace (Exited s tr) = tr"
| "outcome_trace (UndefinedBehaviour tr) = tr"

fun events_of :: "event list outcome \<Rightarrow> event list" where
  "events_of (Running tr) = tr"
| "events_of (Exited s tr) = tr"
| "events_of (UndefinedBehaviour tr) = tr"

subsection \<open>The words of the specification\<close>

text \<open>The first entry of the file index array exceeds its last entry.\<close>

definition first_exceeds_last :: "int list \<Rightarrow> bool" where
  "first_exceeds_last fileIndices = (fileIndices \<noteq> [] \<and> hd fileIndices > last fileIndices)"

text \<open>A matrix of four rows of four elements, and the same matrix with the signs of its
  first two rows inverted.\<close>

definition is_4x4 :: "matrix4x4 \<Rightarrow> bool" where
  "is_4x4 M = (length M = 4 \<and> list_all (\<lambda>row. length row = 4) M)"

definition first_two_rows_negated :: "matrix4x4 \<Rightarrow> matrix4x4" where
  "first_two_rows_negated M = [map uminus (M ! 0), map uminus (M ! 1), M ! 2, M ! 3]"

text \<open>A path ends in \<^verbatim>\<open>.gz\<close>, in upper or lower case.\<close>

definition has_gz_suffix :: "string \<Rightarrow> bool" where
  "has_gz_suffix p =
     (length p \<ge> 3 \<and> map tolower_c (drop (length p - 3) p) = ''.gz'')"

text \<open>The first segment of the synthesised path: the patient's name unless it is unknown.\<close>

definition patient_segment :: "metadata \<Rightarrow> string" where
  "patient_segment meta =
     (if dicomtonifti_safe_string (PatientName meta) \<noteq> ''UNKNOWN''
      then dicomtonifti_safe_string (PatientName meta)
      else dicomtonifti_safe_string (PatientID meta))"

text \<open>A fatal exit: status 1, and the diagnostic on the error stream is the last event.\<close>

definition fatal_exit :: "int \<Rightarrow> event list \<Rightarrow> bool" where
  "fatal_exit s tr = (s = 1 \<and> tr \<noteq> [] \<and> is_Stderr (last tr))"



text \<open>The directory that encloses the output file of series \<open>k\<close>.\<close>

definition series_directory ::
  "env \<Rightarrow> dicomtonifti_options \<Rightarrow> sorter_output \<Rightarrow> string \<Rightarrow> int \<Rightarrow> string" where
  "series_directory e options so outpath k =
     GetParentDirectory e
       (batch_outfile e options outpath (parser_MetaData (parser e (hd (FileNamesForSeries so k)))))"

text \<open>The canonical real paths of the directories that can be opened.\<close>

definition openable_real_paths :: "env \<Rightarrow> string set" where
  "openable_real_paths e = {GetRealPath e d |d. Directory_Load e d \<noteq> None}"

text \<open>
  No canonical real path was loaded twice, and every one that was loaded is in the visited
  set; for an outcome, the same of its events (and of its visited set, if it has one).
\<close>

definition visited_once :: "env \<Rightarrow> string set \<Rightarrow> event list \<Rightarrow> bool" where
  "visited_once e pastdirs tr =
     (GetRealPath e ` set (loaded tr) \<subseteq> pastdirs
      \<and> distinct (map (GetRealPath e) (loaded tr)))"

definition outcome_visited_once :: "env \<Rightarrow> (string set \<times> event list) outcome \<Rightarrow> bool" where
  "outcome_visited_once e out =
     (case out of
        Running st \<Rightarrow> visited_once e (fst st) (snd st)
      | Exited s tr \<Rightarrow> distinct (map (GetRealPath e) (loaded tr))
      | UndefinedBehaviour tr \<Rightarrow> distinct (map (GetRealPath e) (loaded tr)))"


fun no_failure_from :: "env \<Rightarrow> string list \<Rightarrow> event list \<Rightarrow> bool" where
  "no_failure_from e a [] = True"
| "no_failure_from e a (SorterUpdate fs # tr) =
     (sorter_ErrorCode (sorter e fs) = NoError \<and> no_failure_from e a tr)"
| "no_failure_from e a (ParserUpdate f # tr) =
     (parser_ErrorCode (parser e f) = NoError \<and> no_failure_from e a tr)"
| "no_failure_from e a (ReaderUpdate a' # tr) =
     (reader_ErrorCode (reader e a') = NoError \<and> no_failure_from e a' tr)"
| "no_failure_from e a (WriterWrite calls # tr) =
     (writer e a calls = NoError \<and> no_failure_from e a tr)"
| "no_failure_from e a (MakeDirectory d # tr) =
     (MakeDirectory_ok e d \<and> no_failure_from e a tr)"
| "no_failure_from e a (Stdout m # tr) = no_failure_from e a tr"
| "no_failure_from e a (Stderr m # tr) = no_failure_from e a tr"
| "no_failure_from e a (LoadDirectory d # tr) = no_failure_from e a tr"

definition no_failure :: "env \<Rightarrow> event list \<Rightarrow> bool" where
  "no_failure e tr = no_failure_from e [] tr"

text \<open>
  The process stopped at the first failure: the last event is a message on the error
  stream, the event before it is a step that failed, and no step before that one failed.
\<close>

definition stopped_at_first_failure :: "env \<Rightarrow> event list \<Rightarrow> bool" where
  "stopped_at_first_failure e tr =
     (2 \<le> length tr \<and> is_Stderr (last tr)
      \<and> no_failure e (butlast (butlast tr)) \<and> \<not> no_failure e (butlast tr))"

text \<open>
  Failures are fatal in an outcome: a function that returns (or reads out of range) has seen
  no step fail, and an exit has status 1 and stopped at the first failure.
\<close>

definition failures_fatal :: "env \<Rightarrow> event list outcome \<Rightarrow> bool" where
  "failures_fatal e out =
     (case out of
        Running tr \<Rightarrow> no_failure e tr
      | Exited s tr \<Rightarrow> s = 1 \<and> stopped_at_first_failure e tr
      | UndefinedBehaviour tr \<Rightarrow> no_failure e tr)"


text \<open>A directory is selected for expansion at the first level, and at a deeper level.\<close>

definition selected_at_first_level :: "env \<Rightarrow> string \<Rightarrow> bool" where
  "selected_at_first_level e fname = names_directory e fname"

definition selected_at_deeper_level :: "env \<Rightarrow> dicomtonifti_options \<Rightarrow> string \<Rightarrow> bool" where
  "selected_at_deeper_level e options fname =
     (names_directory e fname \<and> recurse options
      \<and> (follow_symlinks options \<or> \<not> FileIsSymlink e fname))"

subsection \<open>A concrete environment\<close>

text \<open>
  A small world on which the program can be run by evaluation: paths are joined with
  slashes, the directory \<^verbatim>\<open>in\<close> holds two files and a link back to itself, the sorter
  puts every file into a series of its own within one study, the parser finds the name of
  the file as the description of the series, the reader keeps the order of
  the slices, the converter turns every axis round, and no collaborator fails.
\<close>

fun join_path :: "string list \<Rightarrow> string" where
  "join_path [] = []"
| "join_path [c] = c"
| "join_path (c # d # cs) = (if c = [] then join_path (d # cs) else c @ ''/'' @ join_path (d # cs))"

fun parent_of :: "string \<Rightarrow> string" where
  "parent_of p = rev (tl (dropWhile (\<lambda>c. c \<noteq> CHR ''/'') (rev p)))"

definition identity4x4 :: matrix4x4 where
  "identity4x4 = [[1, 0, 0, 0], [0, 1, 0, 0], [0, 0, 1, 0], [0, 0, 0, 1]]"

definition flipped4x4 :: matrix4x4 where
  "flipped4x4 = [[- 1, 0, 0, 0], [0, - 1, 0, 0], [0, 0, - 1, 0], [0, 0, 0, 1]]"

definition product4x4 :: "matrix4x4 \<Rightarrow> matrix4x4 \<Rightarrow> matrix4x4" where
  "product4x4 A B =
     map (\<lambda>row. map (\<lambda>j. row ! 0 * B ! 0 ! j + row ! 1 * B ! 1 ! j
                              + row ! 2 * B ! 2 ! j + row ! 3 * B ! 3 ! j) [0, 1, 2, 3]) A"

definition example_metadata :: metadata where
  "example_metadata = \<lparr> PatientName = ''Doe^John'', PatientID = ''12 34'',
     StudyDescription = ''Brain MRI'', StudyID = ''7'',
     SeriesDescription = ''T1 axial.'', SeriesNumber = ''3'' \<rparr>"

definition example_env :: env where
  "example_env = \<lparr>
     FileIsDirectory = (\<lambda>p. p = ''in'' \<or> p = ''in/loop''),
     FileIsSymlink = (\<lambda>p. p = ''in/loop''),
     GetRealPath = (\<lambda>p. if p = ''in/loop'' then ''/data/in'' else ''/data/'' @ p),
     Directory_Load = (\<lambda>p. if p = ''in'' \<or> p = ''in/loop''
                           then Some (p, [''.'', ''..'', ''a.dcm'', ''b.dcm'', ''loop''])
                           else None),
     SplitPath = (\<lambda>p. [[], p]),
     JoinPath = join_path,
     GetParentDirectory = parent_of,
     MakeDirectory_ok = (\<lambda>d. True),
     sorter = (\<lambda>files. \<lparr> sorter_ErrorCode = NoError, sorter_InternalFileName = None,
                 OutputFileNames = files, NumberOfStudies = 1,
                 FirstSeriesInStudy = (\<lambda>j. 0),
                 NumberOfSeriesInStudy = (\<lambda>j. int (length files)),
                 FileNamesForSeries = (\<lambda>k. [files ! nat k]) \<rparr>),
     parser = (\<lambda>f. \<lparr> parser_ErrorCode = NoError,
                 parser_MetaData = example_metadata\<lparr> SeriesDescription := f \<rparr> \<rparr>),
     reader = (\<lambda>files. \<lparr> reader_ErrorCode = NoError, reader_InternalFileName = None,
                 FileIndexArray = [0, 1, 2], PatientMatrix = identity4x4 \<rparr>),
     converter = (\<lambda>rd rows columns. flipped4x4),
     Invert = (\<lambda>M. M),
     Multiply4x4 = product4x4,
     writer = (\<lambda>files calls. NoError) \<rparr>"




definition example_options :: dicomtonifti_options where
  "example_options = \<lparr> compress = True, recurse = True, follow_symlinks = True,
     no_slice_reordering = True, no_row_reordering = False, no_column_reordering = False,
     no_qform = False, no_sform = False, batch = True, silent = False, verbose = False,
     output' = Some ''out'' \<rparr>"

section \<open>Verification\<close>

subsection \<open>The string sanitiser\<close>

lemma underscore_not_alnum: "\<not> isalnum_c (CHR ''_'')"
  by (simp add: isalnum_c_def isdigit_c_def isupper_c_def islower_c_def)

lemma safe_string_loop_out:
  "snd (safe_string_loop cs i m out) = out @ underscore_substituted cs"
  by (induction cs arbitrary: i m out) (simp_all add: underscore_substituted_def)

lemma safe_string_loop_no_alnum:
  "\<forall>c\<in>set cs. \<not> isalnum_c c \<Longrightarrow> fst (safe_string_loop cs i m out) = m"
  by (induction cs arbitrary: i out) simp_all

lemma safe_string_loop_last_alnum:
  "\<exists>c\<in>set cs. isalnum_c c \<Longrightarrow>
   \<exists>k<length cs. isalnum_c (cs ! k) \<and> (\<forall>j. k < j \<and> j < length cs \<longrightarrow> \<not> isalnum_c (cs ! j))
      \<and> fst (safe_string_loop cs i m out) = i + Suc k"
proof (induction cs arbitrary: i m out)
  case Nil
  then show ?case by simp
next
  case (Cons c cs)
  show ?case
  proof (cases "\<exists>d\<in>set cs. isalnum_c d")
    case True
    let ?m = "if \<not> isalnum_c c then m else i + 1"
    let ?out = "if \<not> isalnum_c c then out @ [CHR ''_''] else out @ [c]"
    from Cons.IH [OF True, of "i + 1" ?m ?out]
    obtain k where k: "k < length cs" "isalnum_c (cs ! k)"
      "\<forall>j. k < j \<and> j < length cs \<longrightarrow> \<not> isalnum_c (cs ! j)"
      "fst (safe_string_loop cs (i + 1) ?m ?out) = i + 1 + Suc k"
      by blast
    have a: "Suc k < length (c # cs)" using k(1) by simp
    have b: "isalnum_c ((c # cs) ! Suc k)" using k(2) by simp
    have c: "\<forall>j. Suc k < j \<and> j < length (c # cs) \<longrightarrow> \<not> isalnum_c ((c # cs) ! j)"
    proof (intro allI impI)
      fix j assume j: "Suc k < j \<and> j < length (c # cs)"
      then obtain j' where j': "j = Suc j'" by (cases j) auto
      with j have "k < j' \<and> j' < length cs" by simp
      with k(3) have "\<not> isalnum_c (cs ! j')" by blast
      with j' show "\<not> isalnum_c ((c # cs) ! j)" by simp
    qed
    have d: "fst (safe_string_loop (c # cs) i m out) = i + Suc (Suc k)"
      using k(4) by (simp split: if_splits)
    from a b c d show ?thesis by blast
  next
    case False
    with Cons.prems have alc: "isalnum_c c" by auto
    from False have none: "\<forall>d\<in>set cs. \<not> isalnum_c d" by blast
    have a: "0 < length (c # cs)" by simp
    have b: "isalnum_c ((c # cs) ! 0)" using alc by simp
    have c: "\<forall>j. 0 < j \<and> j < length (c # cs) \<longrightarrow> \<not> isalnum_c ((c # cs) ! j)"
    proof (intro allI impI)
      fix j assume j: "0 < j \<and> j < length (c # cs)"
      then obtain j' where j': "j = Suc j'" by (cases j) auto
      with j have "j' < length cs" by simp
      then have "cs ! j' \<in> set cs" by simp
      with none have "\<not> isalnum_c (cs ! j')" by blast
      with j' show "\<not> isalnum_c ((c # cs) ! j)" by simp
    qed
    have d: "fst (safe_string_loop (c # cs) i m out) = i + Suc 0"
      using alc safe_string_loop_no_alnum [OF none, of "i + 1" "i + 1" "out @ [c]"] by simp
    from a b c d show ?thesis by blast
  qed
qed

lemma safe_string_unfold:
  "dicomtonifti_safe_string s =
     (let out = resize (fst (safe_string_loop s 0 0 [])) (snd (safe_string_loop s 0 0 []))
      in if out = [] then ''UNKNOWN'' else out)"
  by (simp add: dicomtonifti_safe_string_def case_prod_beta)

lemma safe_string_no_alnum:
  assumes "\<forall>c\<in>set s. \<not> isalnum_c c"
  shows "dicomtonifti_safe_string s = ''UNKNOWN''"
proof -
  have "fst (safe_string_loop s 0 0 []) = 0"
    using safe_string_loop_no_alnum [OF assms] by simp
  then show ?thesis
    by (simp add: safe_string_unfold resize_def)
qed

lemma safe_string_some_alnum:
  assumes "\<exists>c\<in>set s. isalnum_c c"
  shows "\<exists>k<length s. isalnum_c (s ! k) \<and> (\<forall>j. k < j \<and> j < length s \<longrightarrow> \<not> isalnum_c (s ! j))
      \<and> dicomtonifti_safe_string s = take (Suc k) (underscore_substituted s)"
proof -
  from safe_string_loop_last_alnum [OF assms, of 0 0 "[]"]
  obtain k where k: "k < length s" "isalnum_c (s ! k)"
      "\<forall>j. k < j \<and> j < length s \<longrightarrow> \<not> isalnum_c (s ! j)"
      "fst (safe_string_loop s 0 0 []) = Suc k"
    by auto
  have out: "snd (safe_string_loop s 0 0 []) = underscore_substituted s"
    using safe_string_loop_out [of s 0 0 "[]"] by simp
  have len: "length (underscore_substituted s) = length s"
    by (simp add: underscore_substituted_def)
  have ne: "underscore_substituted s \<noteq> []"
    using k(1) len by auto
  have "dicomtonifti_safe_string s = take (Suc k) (underscore_substituted s)"
    using k(1) k(4) out len ne
    by (simp add: safe_string_unfold resize_def Let_def)
  with k show ?thesis by blast
qed

lemma allowed_underscore_substituted: "\<forall>c\<in>set (underscore_substituted s). allowed_char c"
  by (auto simp: underscore_substituted_def allowed_char_def)

lemma allowed_UNKNOWN: "\<forall>c\<in>set ''UNKNOWN''. allowed_char c"
  by (simp add: allowed_char_def isalnum_c_def isdigit_c_def isupper_c_def islower_c_def)

lemma safe_string_shape:
  "(\<forall>c\<in>set (dicomtonifti_safe_string s). allowed_char c)
   \<and> dicomtonifti_safe_string s \<noteq> []
   \<and> last (dicomtonifti_safe_string s) \<noteq> CHR ''_''"
proof (cases "\<exists>c\<in>set s. isalnum_c c")
  case False
  then have "dicomtonifti_safe_string s = ''UNKNOWN''"
    using safe_string_no_alnum by blast
  then show ?thesis using allowed_UNKNOWN by simp
next
  case True
  from safe_string_some_alnum [OF True]
  obtain k where k: "k < length s" "isalnum_c (s ! k)"
    "dicomtonifti_safe_string s = take (Suc k) (underscore_substituted s)"
    by blast
  have len: "length (underscore_substituted s) = length s"
    by (simp add: underscore_substituted_def)
  have a: "\<forall>c\<in>set (dicomtonifti_safe_string s). allowed_char c"
    using allowed_underscore_substituted [of s] k(3) by (auto dest: in_set_takeD)
  have ne: "dicomtonifti_safe_string s \<noteq> []"
    using k(1) k(3) len by auto
  have "last (take (Suc k) (underscore_substituted s)) = underscore_substituted s ! k"
    using k(1) len by (simp add: take_Suc_conv_app_nth)
  also have "\<dots> = s ! k"
    using k(1) k(2) by (simp add: underscore_substituted_def)
  finally have "last (dicomtonifti_safe_string s) = s ! k" using k(3) by simp
  with k(2) underscore_not_alnum have "last (dicomtonifti_safe_string s) \<noteq> CHR ''_''"
    by auto
  with a ne show ?thesis by blast
qed

text \<open>
  Claim C2.  For every input string the sanitiser's output consists of ASCII letters, digits
  and underscores only, is not empty and does not end in an underscore.  When the input has
  an alphanumeric character, the output is the input with every other character replaced by
  an underscore, cut right after the last alphanumeric character (at index \<open>k\<close>); when
  it has none (the empty string included) the output is the token UNKNOWN.
\<close>

theorem safe_string_sanitises:
  "(\<forall>c\<in>set (dicomtonifti_safe_string s). allowed_char c)
   \<and> dicomtonifti_safe_string s \<noteq> []
   \<and> last (dicomtonifti_safe_string s) \<noteq> CHR ''_''
   \<and> ((\<exists>c\<in>set s. isalnum_c c) \<longrightarrow>
        (\<exists>k<length s. isalnum_c (s ! k)
           \<and> (\<forall>j. k < j \<and> j < length s \<longrightarrow> \<not> isalnum_c (s ! j))
           \<and> dicomtonifti_safe_string s = take (Suc k) (underscore_substituted s)))
   \<and> ((\<forall>c\<in>set s. \<not> isalnum_c c) \<longrightarrow> dicomtonifti_safe_string s = ''UNKNOWN'')"
  using safe_string_shape [of s] safe_string_some_alnum [of s] safe_string_no_alnum [of s]
  by blast

theorem safe_string_sanitises_witness:
  "(\<exists>c\<in>set ''a b_''. isalnum_c c)
   \<and> dicomtonifti_safe_string ''a b_'' = ''a_b''
   \<and> \<not> (\<exists>c\<in>set ''_ _''. isalnum_c c)
   \<and> dicomtonifti_safe_string ''_ _'' = ''UNKNOWN''
   \<and> dicomtonifti_safe_string [] = ''UNKNOWN''"
  using safe_string_sanitises [of "''a b_''"] safe_string_sanitises [of "''_ _''"]
    safe_string_sanitises [of "[]"]
  by (simp add: dicomtonifti_safe_string_def resize_def allowed_char_def isalnum_c_def
      isdigit_c_def isupper_c_def islower_c_def)

subsection \<open>The output file name\<close>

text \<open>
  Claim C4.  For every output root and every record of the six attributes, the synthesised
  path is the output root (split into its components) joined with three segments: the
  patient segment, which is the sanitised patient name unless that is UNKNOWN and the
  sanitised patient ID then; the sanitised study description, a hyphen and the sanitised
  study ID; the sanitised series description, an underscore, the sanitised series number and
  the extension \<^verbatim>\<open>.nii\<close>.
\<close>

theorem make_filename_segments:
  "dicomtonifti_make_filename e outputRoot meta =
     JoinPath e (SplitPath e outputRoot @
       [patient_segment meta,
        dicomtonifti_safe_string (StudyDescription meta) @ ''-''
          @ dicomtonifti_safe_string (StudyID meta),
        dicomtonifti_safe_string (SeriesDescription meta) @ ''_''
          @ dicomtonifti_safe_string (SeriesNumber meta) @ ''.nii''])"
  by (simp add: dicomtonifti_make_filename_def patient_segment_def Let_def)

lemmas ctype_defs = isalnum_c_def isdigit_c_def isupper_c_def islower_c_def tolower_c_def

lemma example_sanitised:
  "dicomtonifti_safe_string ''Doe^John'' = ''Doe_John''"
  "dicomtonifti_safe_string ''12 34'' = ''12_34''"
  "dicomtonifti_safe_string ''Brain MRI'' = ''Brain_MRI''"
  "dicomtonifti_safe_string ''7'' = ''7''"
  "dicomtonifti_safe_string ''T1 axial.'' = ''T1_axial''"
  "dicomtonifti_safe_string ''3'' = ''3''"
  by (simp_all add: dicomtonifti_safe_string_def resize_def ctype_defs)

theorem make_filename_segments_witness:
  "dicomtonifti_make_filename example_env ''out'' example_metadata
     = ''out/Doe_John/Brain_MRI-7/T1_axial_3.nii''"
  using make_filename_segments [of example_env "''out''" example_metadata]
  by (simp add: example_env_def example_metadata_def patient_segment_def example_sanitised)

subsection \<open>Compression\<close>

lemma single_outfile_long:
  assumes "length outpath > 2"
  shows "single_outfile (options\<lparr>compress := True\<rparr>) outpath =
           (if has_gz_suffix outpath then outpath else outpath @ ''.gz'')"
proof -
  let ?n = "length outpath"
  have d: "drop (?n - 3) outpath = [outpath ! (?n - 3), outpath ! (?n - 2), outpath ! (?n - 1)]"
  proof (rule nth_equalityI)
    show "length (drop (?n - 3) outpath) = length [outpath ! (?n - 3), outpath ! (?n - 2), outpath ! (?n - 1)]"
      using assms by simp
  next
    fix i assume "i < length (drop (?n - 3) outpath)"
    then have "i < 3" using assms by simp
    then consider "i = 0" | "i = 1" | "i = 2" by linarith
    then show "drop (?n - 3) outpath ! i = [outpath ! (?n - 3), outpath ! (?n - 2), outpath ! (?n - 1)] ! i"
    proof cases
      case 1 then show ?thesis using assms by simp
    next
      case 2
      have "?n - 3 + 1 = ?n - 2" using assms by simp
      with 2 show ?thesis using assms by simp
    next
      case 3
      have "?n - 3 + 2 = ?n - 1" using assms by simp
      with 3 show ?thesis using assms by simp
    qed
  qed
  have dot: "tolower_c c = CHR ''.'' \<longleftrightarrow> c = CHR ''.''" for c
  proof (cases "isupper_c c")
    case False
    then show ?thesis by (simp add: tolower_c_def)
  next
    case True
    then have lt: "(of_char c :: nat) + 32 < 256" and ge: "(of_char c :: nat) + 32 \<ge> 97"
      by (simp_all add: isupper_c_def)
    have "(of_char (tolower_c c) :: nat) = (of_char c + 32) mod 256"
      using True by (simp add: tolower_c_def)
    with lt have code: "(of_char (tolower_c c) :: nat) = of_char c + 32" by simp
    have "tolower_c c \<noteq> CHR ''.''"
    proof
      assume "tolower_c c = CHR ''.''"
      then have "(of_char (tolower_c c) :: nat) = 46" by simp
      with code ge show False by simp
    qed
    moreover have "c \<noteq> CHR ''.''"
      using True by (auto simp: isupper_c_def)
    ultimately show ?thesis by simp
  qed
  show ?thesis
    using assms by (simp add: single_outfile_def has_gz_suffix_def d dot)
qed

lemma batch_outfile_compress:
  "batch_outfile e (options\<lparr>compress := True\<rparr>) outpath meta
     = dicomtonifti_make_filename e outpath meta @ ''.gz''"
  by (simp add: batch_outfile_def)

text \<open>
  Claim C7, at an input where the program departs from it.  With compression enabled, in
  single file mode, the output path \<^verbatim>\<open>ab\<close> does not end in \<^verbatim>\<open>.gz\<close>, and yet
  nothing is appended to it: the test that guards the three index reads also guards the
  append.  (For paths of three characters or more, and in batch mode, the suffix is appended
  as the claim says: \<open>single_outfile_long\<close> and \<open>batch_outfile_compress\<close>.)
\<close>

theorem single_outfile_short_path:
  "\<not> has_gz_suffix ''ab'' \<and> single_outfile (options\<lparr>compress := True\<rparr>) ''ab'' = ''ab''"
  by (simp add: single_outfile_def has_gz_suffix_def)

theorem single_outfile_short_path_witness:
  "compress example_options \<and> \<not> batch (example_options\<lparr>batch := False\<rparr>)
   \<and> \<not> has_gz_suffix ''ab''
   \<and> single_outfile (example_options\<lparr>batch := False\<rparr>) ''ab'' = ''ab''"
  using single_outfile_short_path [of "example_options\<lparr>batch := False\<rparr>"]
  by (simp add: example_options_def)

subsection \<open>The slice order test\<close>

lemma upt_4: "[0..<4] = [0, 1, 2, 3]"
  by (simp add: upt_rec)

lemma slicesReordered_by_reader_eq:
  "slicesReordered_by_reader fileIndices = first_exceeds_last fileIndices"
proof (cases "fileIndices = []")
  case True
  then show ?thesis by (simp add: slicesReordered_by_reader_def first_exceeds_last_def)
next
  case False
  then have pos: "0 < length fileIndices" by simp
  have idx: "nat (int (length fileIndices) - 1) = length fileIndices - 1"
    by simp
  have h: "hd fileIndices = fileIndices ! 0"
    using False by (simp add: hd_conv_nth)
  have l: "last fileIndices = fileIndices ! (length fileIndices - 1)"
    using False by (simp add: last_conv_nth)
  show ?thesis
  proof (cases "length fileIndices = 1")
    case True
    then show ?thesis
      using False h l by (simp add: slicesReordered_by_reader_def first_exceeds_last_def)
  next
    case single: False
    with pos have "int (length fileIndices) - 1 > 0" by linarith
    then show ?thesis
      using False h l idx
      by (simp add: slicesReordered_by_reader_def first_exceeds_last_def Let_def)
  qed
qed

lemma SetQFac_prepare_writer:
  "SetQFac q \<in> set (prepare_writer options outfile reordered rasMatrix)
     \<longleftrightarrow> q = - 1 \<and> no_slice_reordering options \<and> reordered"
  by (auto simp: prepare_writer_def)

lemma convert_one_events:
  assumes "reader_ErrorCode (reader e a) = NoError"
  shows "\<exists>rest. events_of (dicomtonifti_convert_one e options a outfile tr) =
           tr @ [ReaderUpdate a,
                 WriterWrite (prepare_writer options outfile
                   (slicesReordered e options (reader e a))
                   (converter e (reader e a) (\<not> no_row_reordering options)
                      (\<not> no_column_reordering options)))] @ rest"
  using assms
  by (cases "writer e a (prepare_writer options outfile
                   (slicesReordered e options (reader e a))
                   (converter e (reader e a) (\<not> no_row_reordering options)
                      (\<not> no_column_reordering options)))")
     (simp_all add: dicomtonifti_convert_one_def dicomtonifti_check_error_def Let_def)

text \<open>
  Claim C1.  For every series the net decision \<open>slicesReordered\<close> is the exclusive or
  of the reader's check (the first entry of the file index array exceeds the last) and the
  converter's check; the writer receives \<^verbatim>\<open>SetQFac(-1.0)\<close> exactly when the option
  \<open>no_slice_reordering\<close> is set and the net decision is true, and no other call of
  \<^verbatim>\<open>SetQFac\<close> ever; and when the reader reports no error, the calls so prepared are
  the ones the writer is run with.
\<close>

theorem net_reorder_is_xor_and_sets_QFac:
  "slicesReordered e options rd =
     (first_exceeds_last (FileIndexArray rd) \<noteq>
      slicesReordered_by_converter e (PatientMatrix rd)
        (converter e rd (\<not> no_row_reordering options) (\<not> no_column_reordering options)))
   \<and> (\<forall>q. SetQFac q \<in> set (prepare_writer options outfile (slicesReordered e options rd) rasMatrix)
          \<longleftrightarrow> q = - 1 \<and> no_slice_reordering options \<and> slicesReordered e options rd)
   \<and> (reader_ErrorCode (reader e a) = NoError \<longrightarrow>
        (\<exists>rest. events_of (dicomtonifti_convert_one e options a outfile tr) =
           tr @ [ReaderUpdate a,
                 WriterWrite (prepare_writer options outfile
                   (slicesReordered e options (reader e a))
                   (converter e (reader e a) (\<not> no_row_reordering options)
                      (\<not> no_column_reordering options)))] @ rest))"
  using convert_one_events [of e a options outfile tr]
  by (simp add: slicesReordered_def Let_def slicesReordered_by_reader_eq SetQFac_prepare_writer)

theorem net_reorder_is_xor_and_sets_QFac_witness:
  "reader_ErrorCode (reader example_env [''a.dcm'']) = NoError
   \<and> slicesReordered example_env example_options (reader example_env [''a.dcm''])
   \<and> SetQFac (- 1) \<in> set (prepare_writer example_options ''a.nii''
         (slicesReordered example_env example_options (reader example_env [''a.dcm''])) flipped4x4)
   \<and> (\<exists>rest. events_of (dicomtonifti_convert_one example_env example_options [''a.dcm''] ''a.nii'' []) =
           [ReaderUpdate [''a.dcm''],
            WriterWrite [SetFileName ''a.nii'', SetQFac (- 1), SetQFormMatrix flipped4x4,
              SetSFormMatrix flipped4x4, SetInputConnection]] @ rest)"
proof -
  have r: "reader example_env [''a.dcm''] = \<lparr> reader_ErrorCode = NoError,
      reader_InternalFileName = None, FileIndexArray = [0, 1, 2], PatientMatrix = identity4x4 \<rparr>"
    by (simp add: example_env_def)
  have c: "converter example_env rd rows columns = flipped4x4" for rd rows columns
    by (simp add: example_env_def)
  have conv: "slicesReordered_by_converter example_env identity4x4 flipped4x4"
    by (simp add: slicesReordered_by_converter_def checkMatrix_def example_env_def upt_4
        negate_column_def SetElement_def GetElement_def identity4x4_def flipped4x4_def
        product4x4_def double_minus_0_1_def)
  have fel: "\<not> first_exceeds_last [0, 1, 2]"
    by (simp add: first_exceeds_last_def)
  have opts: "no_slice_reordering example_options" "\<not> no_qform example_options"
      "\<not> no_sform example_options"
    by (simp_all add: example_options_def)
  note inst = net_reorder_is_xor_and_sets_QFac [of example_env example_options
        "reader example_env [''a.dcm'']" "''a.nii''" flipped4x4 "[''a.dcm'']" "[]"]
  from inst have sr: "slicesReordered example_env example_options
      \<lparr> reader_ErrorCode = NoError, reader_InternalFileName = None,
        FileIndexArray = [0, 1, 2], PatientMatrix = identity4x4 \<rparr>"
    by (simp add: r c conv fel)
  show ?thesis
    using inst by (simp add: r c sr opts prepare_writer_def)
qed

lemma double_minus_0_1_near:
  "double_minus_0_1 < - (1 / 10) \<and> - (1 / 10) - double_minus_0_1 < 1 / 10 ^ 17"
  by (simp add: double_minus_0_1_def)

lemma undo_sign_change:
  assumes "is_4x4 M"
  shows "fold negate_column [0..<4] M = first_two_rows_negated M"
proof -
  from assms obtain r0 r1 r2 r3 where M: "M = [r0, r1, r2, r3]"
    by (auto simp: is_4x4_def length_Suc_conv numeral_eq_Suc)
  from assms M have "length r0 = 4" "length r1 = 4"
    by (simp_all add: is_4x4_def)
  then obtain a0 a1 a2 a3 b0 b1 b2 b3 where r: "r0 = [a0, a1, a2, a3]" "r1 = [b0, b1, b2, b3]"
    by (auto simp: length_Suc_conv numeral_eq_Suc)
  show ?thesis
    by (simp add: M r upt_4 negate_column_def SetElement_def GetElement_def
        first_two_rows_negated_def)
qed

text \<open>
  Claim C6.  The converter's check holds exactly when element (2,2) of the product of
  the inverse of the patient matrix with its first two rows negated, and the RAS matrix of
  the converter, is less than the constant -0.1 of the source.  Inversion and product are
  the ones of the matrix class, whatever they compute.
\<close>

theorem converter_check_is_sign_test:
  "is_4x4 patientMatrix \<Longrightarrow>
   slicesReordered_by_converter e patientMatrix rasMatrix \<longleftrightarrow>
     GetElement (Multiply4x4 e (Invert e (first_two_rows_negated patientMatrix)) rasMatrix) 2 2
       < double_minus_0_1"
  by (simp add: slicesReordered_by_converter_def checkMatrix_def undo_sign_change)

theorem converter_check_is_sign_test_witness:
  "is_4x4 identity4x4
   \<and> first_two_rows_negated identity4x4 = [[- 1, 0, 0, 0], [0, - 1, 0, 0], [0, 0, 1, 0], [0, 0, 0, 1]]
   \<and> slicesReordered_by_converter example_env identity4x4 flipped4x4
   \<and> \<not> slicesReordered_by_converter example_env identity4x4 identity4x4"
  using converter_check_is_sign_test [of identity4x4 example_env flipped4x4]
    converter_check_is_sign_test [of identity4x4 example_env identity4x4]
  by (simp add: is_4x4_def identity4x4_def flipped4x4_def first_two_rows_negated_def
      example_env_def product4x4_def GetElement_def double_minus_0_1_def)

text \<open>
  Claim C10.  When the file index array has exactly one entry, the reader's check is
  false whatever the entry is, so that the writer receives \<^verbatim>\<open>SetQFac(-1.0)\<close> exactly
  when \<open>no_slice_reordering\<close> is set and the converter's check holds.
\<close>

theorem single_slice_reader_check:
  "length (FileIndexArray rd) = 1 \<Longrightarrow>
   \<not> slicesReordered_by_reader (FileIndexArray rd)
   \<and> (SetQFac (- 1) \<in> set (prepare_writer options outfile (slicesReordered e options rd) rasMatrix)
        \<longleftrightarrow> no_slice_reordering options
           \<and> slicesReordered_by_converter e (PatientMatrix rd)
               (converter e rd (\<not> no_row_reordering options) (\<not> no_column_reordering options)))"
  by (simp add: slicesReordered_def Let_def slicesReordered_by_reader_def SetQFac_prepare_writer)

theorem single_slice_reader_check_witness:
  "length (FileIndexArray \<lparr> reader_ErrorCode = NoError, reader_InternalFileName = None,
       FileIndexArray = [5], PatientMatrix = identity4x4 \<rparr>) = 1
   \<and> \<not> slicesReordered_by_reader [5]
   \<and> SetQFac (- 1) \<in> set (prepare_writer example_options ''a.nii''
        (slicesReordered example_env example_options \<lparr> reader_ErrorCode = NoError,
           reader_InternalFileName = None, FileIndexArray = [5], PatientMatrix = identity4x4 \<rparr>)
        flipped4x4)"
proof -
  have conv: "slicesReordered_by_converter example_env identity4x4 flipped4x4"
    by (simp add: slicesReordered_by_converter_def checkMatrix_def example_env_def upt_4
        negate_column_def SetElement_def GetElement_def identity4x4_def flipped4x4_def
        product4x4_def double_minus_0_1_def)
  have c: "converter example_env rd rows columns = flipped4x4" for rd rows columns
    by (simp add: example_env_def)
  show ?thesis
    using single_slice_reader_check [of "\<lparr> reader_ErrorCode = NoError,
       reader_InternalFileName = None, FileIndexArray = [5], PatientMatrix = identity4x4 \<rparr>"
       example_options "''a.nii''" example_env flipped4x4]
    by (simp add: conv c example_options_def)
qed

subsection \<open>Fatal errors\<close>

lemma fatal_exit_snoc: "fatal_exit 1 (tr @ [Stderr m])"
  by (simp add: fatal_exit_def)


lemma check_error_cases:
  "(c = NoError \<and> dicomtonifti_check_error fn c tr = Running tr)
   \<or> (c \<noteq> NoError \<and> (\<exists>m. dicomtonifti_check_error fn c tr = Exited 1 (tr @ [Stderr m])))"
  by (cases c) (simp_all add: dicomtonifti_check_error_def)









subsection \<open>What the conversion adds to the events\<close>

lemma loaded_append: "loaded (xs @ ys) = loaded xs @ loaded ys"
  by (induction xs rule: loaded.induct) simp_all

lemma created_append: "created (xs @ ys) = created xs @ created ys"
  by (induction xs rule: created.induct) simp_all

lemma loaded_check_error:
  "loaded (events_of (dicomtonifti_check_error fn c tr)) = loaded tr"
  using check_error_cases [of c fn tr] by (auto simp: loaded_append)

lemma created_check_error:
  "created (events_of (dicomtonifti_check_error fn c tr)) = created tr"
  using check_error_cases [of c fn tr] by (auto simp: created_append)

lemma loaded_convert_one:
  "loaded (events_of (dicomtonifti_convert_one e options a outfile tr)) = loaded tr"
  using check_error_cases [of "reader_ErrorCode (reader e a)"
      "reader_InternalFileName (reader e a)" "tr @ [ReaderUpdate a]"]
  by (auto simp: dicomtonifti_convert_one_def Let_def loaded_append loaded_check_error)

lemma created_convert_one:
  "created (events_of (dicomtonifti_convert_one e options a outfile tr)) = created tr"
  using check_error_cases [of "reader_ErrorCode (reader e a)"
      "reader_InternalFileName (reader e a)" "tr @ [ReaderUpdate a]"]
  by (auto simp: dicomtonifti_convert_one_def Let_def created_append created_check_error)

lemma loaded_series_body:
  "loaded (events_of (series_body e options so outpath j k tr)) = loaded tr"
proof (cases "FileNamesForSeries so k")
  case Nil
  then show ?thesis by (simp add: series_body_def)
next
  case (Cons fname rest)
  show ?thesis
    using check_error_cases [of "parser_ErrorCode (parser e fname)" "Some fname"
        "tr @ [ParserUpdate fname]"]
    by (auto simp: series_body_def Cons Let_def loaded_append loaded_convert_one)
qed

lemma loaded_series_loop:
  "loaded (events_of (series_loop e options so outpath j k n tr)) = loaded tr"
proof (induction e options so outpath j k n tr rule: series_loop.induct)
  case (1 e options so outpath j k n tr)
  note unfold = series_loop.simps [of e options so outpath j k n tr]
  show ?case
  proof (cases "k < n")
    case False
    then show ?thesis by (simp add: unfold)
  next
    case True
    show ?thesis
    proof (cases "series_body e options so outpath j k tr")
      case (Running t1)
      have "loaded t1 = loaded tr"
        using loaded_series_body [of e options so outpath j k tr] Running by simp
      with "1.IH" [OF True Running] True Running show ?thesis by (simp add: unfold)
    next
      case (Exited s1 t1)
      with True loaded_series_body [of e options so outpath j k tr] show ?thesis
        by (simp add: unfold)
    next
      case (UndefinedBehaviour t1)
      with True loaded_series_body [of e options so outpath j k tr] show ?thesis
        by (simp add: unfold)
    qed
  qed
qed

lemma loaded_study_loop:
  "loaded (events_of (study_loop e options so outpath j m tr)) = loaded tr"
proof (induction e options so outpath j m tr rule: study_loop.induct)
  case (1 e options so outpath j m tr)
  note unfold = study_loop.simps [of e options so outpath j m tr]
  let ?k = "FirstSeriesInStudy so j"
  let ?n = "NumberOfSeriesInStudy so j + ?k"
  note inner = loaded_series_loop [of e options so outpath j ?k ?n tr]
  show ?case
  proof (cases "j < m")
    case False
    then show ?thesis by (simp add: unfold)
  next
    case True
    show ?thesis
    proof (cases "series_loop e options so outpath j ?k ?n tr")
      case (Running t1)
      with inner have "loaded t1 = loaded tr" by simp
      with "1.IH" [OF True refl refl refl Running] True Running show ?thesis
        by (simp add: unfold Let_def)
    next
      case (Exited s1 t1)
      with True inner show ?thesis by (simp add: unfold Let_def)
    next
      case (UndefinedBehaviour t1)
      with True inner show ?thesis by (simp add: unfold Let_def)
    qed
  qed
qed

lemma loaded_convert_files:
  "loaded (events_of (dicomtonifti_convert_files e options files outpath tr)) = loaded tr"
  using check_error_cases [of "sorter_ErrorCode (sorter e files)"
      "sorter_InternalFileName (sorter e files)" "tr @ [SorterUpdate files]"]
  by (auto simp: dicomtonifti_convert_files_def Let_def loaded_append loaded_convert_one
      loaded_study_loop)

subsection \<open>Directory creation in batch mode\<close>

lemma created_series_body:
  assumes "series_body e options so outpath j k tr = Running tr'"
  shows "created tr' = created tr @
           (if k = FirstSeriesInStudy so j then [series_directory e options so outpath k] else [])"
proof (cases "FileNamesForSeries so k")
  case Nil
  with assms show ?thesis by (simp add: series_body_def)
next
  case (Cons fname rest)
  let ?outfile = "batch_outfile e options outpath (parser_MetaData (parser e fname))"
  from check_error_cases [of "parser_ErrorCode (parser e fname)" "Some fname"
        "tr @ [ParserUpdate fname]"]
  show ?thesis
  proof
    assume ok: "parser_ErrorCode (parser e fname) = NoError \<and>
      dicomtonifti_check_error (Some fname) (parser_ErrorCode (parser e fname))
        (tr @ [ParserUpdate fname]) = Running (tr @ [ParserUpdate fname])"
    have conv: "dicomtonifti_convert_one e options a outfile t = Running tr'
        \<Longrightarrow> created tr' = created t" for a outfile t
      using created_convert_one [of e options a outfile t] by simp
    from assms ok Cons show ?thesis
      by (auto simp: series_body_def Let_def series_directory_def created_append
          split: if_splits dest!: conv)
  next
    assume "parser_ErrorCode (parser e fname) \<noteq> NoError \<and>
      (\<exists>m. dicomtonifti_check_error (Some fname) (parser_ErrorCode (parser e fname))
        (tr @ [ParserUpdate fname]) = Exited 1 ((tr @ [ParserUpdate fname]) @ [Stderr m]))"
    with assms Cons show ?thesis by (auto simp: series_body_def Let_def)
  qed
qed

lemma created_series_loop:
  "series_loop e options so outpath j k n tr = Running tr' \<Longrightarrow>
   created tr' = created tr @
     (if k \<le> FirstSeriesInStudy so j \<and> FirstSeriesInStudy so j < n
      then [series_directory e options so outpath (FirstSeriesInStudy so j)] else [])"
proof (induction e options so outpath j k n tr rule: series_loop.induct)
  case (1 e options so outpath j k n tr)
  note unfold = series_loop.simps [of e options so outpath j k n tr]
  show ?case
  proof (cases "k < n")
    case False
    with "1.prems" show ?thesis by (simp add: unfold)
  next
    case True
    show ?thesis
    proof (cases "series_body e options so outpath j k tr")
      case (Running t1)
      with True "1.prems" have rest: "series_loop e options so outpath j (k + 1) n t1 = Running tr'"
        by (simp add: unfold)
      from "1.IH" [OF True Running rest] created_series_body [OF Running] True
      show ?thesis by auto
    next
      case (Exited s1 t1)
      with True "1.prems" show ?thesis by (simp add: unfold)
    next
      case (UndefinedBehaviour t1)
      with True "1.prems" show ?thesis by (simp add: unfold)
    qed
  qed
qed

lemma created_study_loop:
  "study_loop e options so outpath j m tr = Running tr' \<Longrightarrow>
   \<forall>i. j \<le> i \<and> i < m \<longrightarrow> 1 \<le> NumberOfSeriesInStudy so i \<Longrightarrow>
   created tr' = created tr @
     map (\<lambda>i. series_directory e options so outpath (FirstSeriesInStudy so i)) [j..m - 1]"
proof (induction e options so outpath j m tr rule: study_loop.induct)
  case (1 e options so outpath j m tr)
  note unfold = study_loop.simps [of e options so outpath j m tr]
  let ?k = "FirstSeriesInStudy so j"
  let ?n = "NumberOfSeriesInStudy so j + ?k"
  show ?case
  proof (cases "j < m")
    case False
    with "1.prems" show ?thesis by (simp add: unfold)
  next
    case True
    with "1.prems"(2) have some: "1 \<le> NumberOfSeriesInStudy so j" by simp
    have range: "[j..m - 1] = j # [j + 1..m - 1]"
      using True by (simp add: upto_rec1)
    show ?thesis
    proof (cases "series_loop e options so outpath j ?k ?n tr")
      case (Running t1)
      with True "1.prems" have rest: "study_loop e options so outpath (j + 1) m t1 = Running tr'"
        by (simp add: unfold Let_def)
      have later: "\<forall>i. j + 1 \<le> i \<and> i < m \<longrightarrow> 1 \<le> NumberOfSeriesInStudy so i"
        using "1.prems"(2) by simp
      from created_series_loop [OF Running] some
      have "created t1 = created tr @ [series_directory e options so outpath ?k]" by simp
      with "1.IH" [OF True refl refl refl Running rest later] range
      show ?thesis by simp
    next
      case (Exited s1 t1)
      with True "1.prems" show ?thesis by (simp add: unfold Let_def)
    next
      case (UndefinedBehaviour t1)
      with True "1.prems" show ?thesis by (simp add: unfold Let_def)
    qed
  qed
qed

text \<open>
  Claim C9.  In batch mode, when the conversion of a list of files runs to its end and
  every study has at least one series (as the glossary of the specification says), the
  directories created are, in order, one for each study: the directory that encloses the
  output file of the first series of the study.  Within the loop, the body for series \<open>k\<close>
  of study \<open>j\<close> creates a directory exactly when \<open>k\<close> is the first series of \<open>j\<close>.
\<close>

theorem directory_created_once_per_study:
  "(batch options \<and> dicomtonifti_convert_files e options files outpath tr = Running tr'
      \<and> (\<forall>j. 0 \<le> j \<and> j < NumberOfStudies (sorter e files)
             \<longrightarrow> 1 \<le> NumberOfSeriesInStudy (sorter e files) j)
    \<longrightarrow> created tr' = created tr @
          map (\<lambda>j. series_directory e options (sorter e files) outpath
                     (FirstSeriesInStudy (sorter e files) j))
            [0..NumberOfStudies (sorter e files) - 1])
   \<and> (series_body e options so outpath j k t = Running t'
    \<longrightarrow> created t' = created t @
          (if k = FirstSeriesInStudy so j then [series_directory e options so outpath k]
           else []))"
proof (intro conjI impI)
  assume a: "batch options \<and> dicomtonifti_convert_files e options files outpath tr = Running tr'
      \<and> (\<forall>j. 0 \<le> j \<and> j < NumberOfStudies (sorter e files)
             \<longrightarrow> 1 \<le> NumberOfSeriesInStudy (sorter e files) j)"
  let ?so = "sorter e files"
  from check_error_cases [of "sorter_ErrorCode ?so" "sorter_InternalFileName ?so"
      "tr @ [SorterUpdate files]"] a
  have "study_loop e options ?so outpath 0 (NumberOfStudies ?so) (tr @ [SorterUpdate files])
          = Running tr'"
    by (auto simp: dicomtonifti_convert_files_def Let_def)
  from created_study_loop [OF this] a
  show "created tr' = created tr @
          map (\<lambda>j. series_directory e options ?so outpath (FirstSeriesInStudy ?so j))
            [0..NumberOfStudies ?so - 1]"
    by (simp add: created_append)
next
  assume "series_body e options so outpath j k t = Running t'"
  then show "created t' = created t @
          (if k = FirstSeriesInStudy so j then [series_directory e options so outpath k]
           else [])"
    by (rule created_series_body)
qed

theorem directory_created_once_per_study_witness:
  "batch example_options
   \<and> NumberOfStudies (sorter example_env [''a.dcm'', ''b.dcm'']) = 1
   \<and> NumberOfSeriesInStudy (sorter example_env [''a.dcm'', ''b.dcm'']) 0 = 2
   \<and> (\<exists>tr'. dicomtonifti_convert_files example_env example_options [''a.dcm'', ''b.dcm'']
                ''out'' [] = Running tr'
          \<and> created tr' = [''out/Doe_John/Brain_MRI-7''])"
proof -
  let ?files = "[''a.dcm'', ''b.dcm'']"
  let ?run = "dicomtonifti_convert_files example_env example_options ?files ''out'' []"
  have "?run = Running (events_of ?run)"
    by code_simp
  then obtain tr' where run: "?run = Running tr'" ..
  have b: "batch example_options"
    by (simp add: example_options_def)
  have studies: "NumberOfStudies (sorter example_env ?files) = 1"
    "NumberOfSeriesInStudy (sorter example_env ?files) j = 2"
    "FirstSeriesInStudy (sorter example_env ?files) j = 0" for j
    by (simp_all add: example_env_def)
  have some: "\<forall>j. 0 \<le> j \<and> j < NumberOfStudies (sorter example_env ?files)
                \<longrightarrow> 1 \<le> NumberOfSeriesInStudy (sorter example_env ?files) j"
    by (simp add: studies)
  have dir: "series_directory example_env example_options (sorter example_env ?files) ''out'' 0
               = ''out/Doe_John/Brain_MRI-7''"
    by code_simp
  from directory_created_once_per_study [of example_options example_env ?files "''out''" "[]" tr']
    b run some
  have "created tr' = [''out/Doe_John/Brain_MRI-7'']"
    by (simp add: studies dir)
  with run have "\<exists>tr'. ?run = Running tr' \<and> created tr' = [''out/Doe_John/Brain_MRI-7'']"
    by blast
  with b studies(1) studies(2) [of 0] show ?thesis by blast
qed

subsection \<open>The first loop\<close>

lemma look_for_directories_acc:
  "look_for_directories e options pastdirs files (directories, newfiles) =
     (directories @ filter (\<lambda>f. names_directory e f \<and> (pastdirs = {} \<or>
         (recurse options \<and> (follow_symlinks options \<or> \<not> FileIsSymlink e f)))) files,
      newfiles @ filter (\<lambda>f. \<not> names_directory e f) files)"
  by (induction files arbitrary: directories newfiles) auto

lemma look_for_directories_first_level:
  "look_for_directories e options {} files ([], []) =
     (filter (selected_at_first_level e) files, filter (\<lambda>f. \<not> names_directory e f) files)"
proof -
  have "selected_at_first_level e = names_directory e"
    by (rule ext) (simp add: selected_at_first_level_def)
  then show ?thesis by (simp add: look_for_directories_acc)
qed

lemma look_for_directories_deeper_level:
  "pastdirs \<noteq> {} \<Longrightarrow>
   look_for_directories e options pastdirs files ([], []) =
     (filter (selected_at_deeper_level e options) files,
      filter (\<lambda>f. \<not> names_directory e f) files)"
proof -
  assume "pastdirs \<noteq> {}"
  moreover have "selected_at_deeper_level e options =
      (\<lambda>f. names_directory e f \<and> recurse options
            \<and> (follow_symlinks options \<or> \<not> FileIsSymlink e f))"
    by (rule ext) (simp add: selected_at_deeper_level_def)
  ultimately show ?thesis by (simp add: look_for_directories_acc)
qed

subsection \<open>The second loop\<close>

lemma directories_loop_skip:
  "GetRealPath e d \<in> pastdirs \<Longrightarrow>
   directories_loop e r (d # ds) (pastdirs, tr) = directories_loop e r ds (pastdirs, tr)"
  by simp


lemma directories_loop_recursion_nonempty:
  "directories_loop e r ds st =
     directories_loop e (\<lambda>files st. if fst st = {} then None else r files st) ds st"
proof (induction ds arbitrary: st)
  case Nil
  then show ?case by (cases st) simp
next
  case (Cons d ds)
  obtain pd tr where st: "st = (pd, tr)" by (cases st)
  show ?case
    by (simp add: st Let_def Cons.IH split: option.splits outcome.splits prod.splits)
qed


lemma directories_loop_grows:
  assumes r: "\<And>files st st'. r files st = Some (Running st') \<Longrightarrow> fst st \<subseteq> fst st'"
  shows "directories_loop e r ds st = Some (Running st') \<Longrightarrow> fst st \<subseteq> fst st'"
proof (induction ds arbitrary: st)
  case Nil
  then show ?case by (cases st) auto
next
  case (Cons d ds)
  obtain pd tr where st: "st = (pd, tr)" by (cases st)
  show ?case
  proof (cases "GetRealPath e d \<in> pd")
    case True
    with Cons.prems st have "directories_loop e r ds (pd, tr) = Some (Running st')" by simp
    from Cons.IH [OF this] st show ?thesis by simp
  next
    case False
    show ?thesis
    proof (cases "Directory_Load e d")
      case None
      with False Cons.prems st
      have "directories_loop e r ds (insert (GetRealPath e d) pd,
              tr @ [LoadDirectory d, Stderr (''Could not open directory '' @ d @ newline)])
            = Some (Running st')" by simp
      from Cons.IH [OF this] st show ?thesis by auto
    next
      case (Some listing)
      obtain path entries where listing: "listing = (path, entries)" by (cases listing)
      let ?call = "r (directory_files e path entries)
                     (insert (GetRealPath e d) pd, tr @ [LoadDirectory d])"
      from Cons.prems st False Some listing
      have run: "(case ?call of None \<Rightarrow> None
                  | Some (Running st') \<Rightarrow> directories_loop e r ds st'
                  | Some (Exited s tr) \<Rightarrow> Some (Exited s tr)
                  | Some (UndefinedBehaviour tr) \<Rightarrow> Some (UndefinedBehaviour tr))
                 = Some (Running st')"
        by simp
      show ?thesis
      proof (cases ?call)
        case None
        with run show ?thesis by simp
      next
        case (Some out)
        show ?thesis
        proof (cases out)
          case (Running st1)
          with run Some have "directories_loop e r ds st1 = Some (Running st')" by simp
          from Cons.IH [OF this] have a: "fst st1 \<subseteq> fst st'" .
          from Some Running have "?call = Some (Running st1)" by simp
          from r [OF this] have "insert (GetRealPath e d) pd \<subseteq> fst st1" by simp
          with a st show ?thesis by auto
        next
          case (Exited s1 t1)
          with run Some show ?thesis by simp
        next
          case (UndefinedBehaviour t1)
          with run Some show ?thesis by simp
        qed
      qed
    qed
  qed
qed

lemma visited_once_load:
  assumes "visited_once e pd tr" and "GetRealPath e d \<notin> pd"
  shows "visited_once e (insert (GetRealPath e d) pd) (tr @ [LoadDirectory d])"
    and "visited_once e (insert (GetRealPath e d) pd) (tr @ [LoadDirectory d, Stderr m])"
  using assms by (auto simp: visited_once_def loaded_append)

lemma directories_loop_visits_once:
  assumes r: "\<And>files st out. visited_once e (fst st) (snd st) \<Longrightarrow> r files st = Some out
                \<Longrightarrow> outcome_visited_once e out"
  shows "visited_once e (fst st) (snd st) \<Longrightarrow> directories_loop e r ds st = Some out
           \<Longrightarrow> outcome_visited_once e out"
proof (induction ds arbitrary: st)
  case Nil
  then show ?case by (cases st) (auto simp: outcome_visited_once_def)
next
  case (Cons d ds)
  obtain pd tr where st: "st = (pd, tr)" by (cases st)
  from Cons.prems(1) st have inv: "visited_once e pd tr" by simp
  show ?case
  proof (cases "GetRealPath e d \<in> pd")
    case True
    with Cons.prems(2) st have "directories_loop e r ds (pd, tr) = Some out" by simp
    with Cons.IH [of "(pd, tr)"] inv show ?thesis by simp
  next
    case False
    note fresh = visited_once_load [OF inv False]
    show ?thesis
    proof (cases "Directory_Load e d")
      case None
      let ?st = "(insert (GetRealPath e d) pd,
              tr @ [LoadDirectory d, Stderr (''Could not open directory '' @ d @ newline)])"
      from None False Cons.prems(2) st
      have "directories_loop e r ds ?st = Some out" by simp
      with Cons.IH [of ?st] fresh(2) show ?thesis by simp
    next
      case (Some listing)
      obtain path entries where listing: "listing = (path, entries)" by (cases listing)
      let ?st = "(insert (GetRealPath e d) pd, tr @ [LoadDirectory d])"
      let ?call = "r (directory_files e path entries) ?st"
      from Cons.prems(2) st False Some listing
      have run: "(case ?call of None \<Rightarrow> None
                  | Some (Running st') \<Rightarrow> directories_loop e r ds st'
                  | Some (Exited s tr) \<Rightarrow> Some (Exited s tr)
                  | Some (UndefinedBehaviour tr) \<Rightarrow> Some (UndefinedBehaviour tr))
                 = Some out"
        by simp
      show ?thesis
      proof (cases ?call)
        case None
        with run show ?thesis by simp
      next
        case inner: (Some out1)
        from r [of ?st, OF _ inner] fresh(1) have inv1: "outcome_visited_once e out1" by simp
        show ?thesis
        proof (cases out1)
          case (Running st1)
          with run inner have "directories_loop e r ds st1 = Some out" by simp
          moreover from inv1 Running have "visited_once e (fst st1) (snd st1)"
            by (simp add: outcome_visited_once_def)
          ultimately show ?thesis using Cons.IH [of st1] by simp
        next
          case (Exited s1 t1)
          with run inner inv1 show ?thesis by auto
        next
          case (UndefinedBehaviour t1)
          with run inner inv1 show ?thesis by auto
        qed
      qed
    qed
  qed
qed

lemma directories_loop_total:
  assumes fin: "finite (openable_real_paths e)"
    and r_total: "\<And>files st. card (openable_real_paths e - fst st) < n \<Longrightarrow> r files st \<noteq> None"
    and r_grows: "\<And>files st st'. r files st = Some (Running st') \<Longrightarrow> fst st \<subseteq> fst st'"
  shows "card (openable_real_paths e - fst st) \<le> n \<Longrightarrow> directories_loop e r ds st \<noteq> None"
proof (induction ds arbitrary: st)
  case Nil
  then show ?case by (cases st) simp
next
  case (Cons d ds)
  obtain pd tr where st: "st = (pd, tr)" by (cases st)
  let ?D = "openable_real_paths e"
  let ?rp = "GetRealPath e d"
  from Cons.prems st have bound: "card (?D - pd) \<le> n" by simp
  have le: "card (?D - insert ?rp pd) \<le> card (?D - pd)"
    using fin by (intro card_mono) auto
  show ?case
  proof (cases "?rp \<in> pd")
    case True
    with Cons.IH [of "(pd, tr)"] bound st show ?thesis by simp
  next
    case False
    show ?thesis
    proof (cases "Directory_Load e d")
      case None
      let ?st = "(insert ?rp pd,
              tr @ [LoadDirectory d, Stderr (''Could not open directory '' @ d @ newline)])"
      from le bound have "card (?D - fst ?st) \<le> n" by simp
      from Cons.IH [OF this] None False st show ?thesis by simp
    next
      case (Some listing)
      obtain path entries where listing: "listing = (path, entries)" by (cases listing)
      let ?st = "(insert ?rp pd, tr @ [LoadDirectory d])"
      let ?call = "r (directory_files e path entries) ?st"
      from Some have "?rp \<in> ?D" by (auto simp: openable_real_paths_def)
      with False have "?D - insert ?rp pd \<subset> ?D - pd" by auto
      with fin have "card (?D - insert ?rp pd) < card (?D - pd)"
        by (intro psubset_card_mono) auto
      with bound have "card (?D - fst ?st) < n" by simp
      from r_total [OF this] obtain out1 where inner: "?call = Some out1" by blast
      have unfold: "directories_loop e r (d # ds) st =
          (case out1 of Running st' \<Rightarrow> directories_loop e r ds st'
           | Exited s tr \<Rightarrow> Some (Exited s tr)
           | UndefinedBehaviour tr \<Rightarrow> Some (UndefinedBehaviour tr))"
        using st False Some listing inner by simp
      show ?thesis
      proof (cases out1)
        case (Running st1)
        with inner r_grows have "insert ?rp pd \<subseteq> fst st1" by fastforce
        then have "?D - fst st1 \<subseteq> ?D - pd" by auto
        with fin have "card (?D - fst st1) \<le> card (?D - pd)" by (intro card_mono) auto
        with bound have "card (?D - fst st1) \<le> n" by simp
        from Cons.IH [OF this] unfold Running show ?thesis by simp
      next
        case (Exited s1 t1)
        with unfold show ?thesis by simp
      next
        case (UndefinedBehaviour t1)
        with unfold show ?thesis by simp
      qed
    qed
  qed
qed

subsection \<open>The recursion\<close>

lemma files_and_dirs_Suc:
  "dicomtonifti_files_and_dirs (Suc depth) e options outpath files (pd, tr) =
     (case (if filter (\<lambda>f. \<not> names_directory e f) files \<noteq> []
            then dicomtonifti_convert_files e options
                   (filter (\<lambda>f. \<not> names_directory e f) files) outpath tr
            else Running tr) of
        Running tr \<Rightarrow>
          directories_loop e (dicomtonifti_files_and_dirs depth e options outpath)
            (fst (look_for_directories e options pd files ([], []))) (pd, tr)
      | Exited s tr \<Rightarrow> Some (Exited s tr)
      | UndefinedBehaviour tr \<Rightarrow> Some (UndefinedBehaviour tr))"
  by (simp add: look_for_directories_acc Let_def split: outcome.split)


lemma files_and_dirs_grows:
  "dicomtonifti_files_and_dirs depth e options outpath files st = Some (Running st')
     \<Longrightarrow> fst st \<subseteq> fst st'"
proof (induction depth arbitrary: files st st')
  case 0
  then show ?case by simp
next
  case (Suc depth)
  obtain pd tr where st: "st = (pd, tr)" by (cases st)
  let ?newfiles = "filter (\<lambda>f. \<not> names_directory e f) files"
  let ?conv = "if ?newfiles \<noteq> [] then dicomtonifti_convert_files e options ?newfiles outpath tr
               else Running tr"
  note unfold = files_and_dirs_Suc [of depth e options outpath files pd tr]
  show ?case
  proof (cases ?conv)
    case (Running t1)
    with Suc.prems st unfold
    have "directories_loop e (dicomtonifti_files_and_dirs depth e options outpath)
            (fst (look_for_directories e options pd files ([], []))) (pd, t1) = Some (Running st')"
      by simp
    from directories_loop_grows [OF Suc.IH this] st show ?thesis by simp
  next
    case (Exited s1 t1)
    with Suc.prems st unfold show ?thesis by simp
  next
    case (UndefinedBehaviour t1)
    with Suc.prems st unfold show ?thesis by simp
  qed
qed

lemma files_and_dirs_visits_once:
  "visited_once e (fst st) (snd st) \<Longrightarrow>
   dicomtonifti_files_and_dirs depth e options outpath files st = Some out
     \<Longrightarrow> outcome_visited_once e out"
proof (induction depth arbitrary: files st out)
  case 0
  then show ?case by simp
next
  case (Suc depth)
  obtain pd tr where st: "st = (pd, tr)" by (cases st)
  let ?newfiles = "filter (\<lambda>f. \<not> names_directory e f) files"
  let ?conv = "if ?newfiles \<noteq> [] then dicomtonifti_convert_files e options ?newfiles outpath tr
               else Running tr"
  note unfold = files_and_dirs_Suc [of depth e options outpath files pd tr]
  from Suc.prems(1) st have inv: "visited_once e pd tr" by simp
  have same: "loaded (events_of ?conv) = loaded tr"
    by (simp add: loaded_convert_files)
  show ?case
  proof (cases ?conv)
    case (Running t1)
    with same have "loaded t1 = loaded tr" by simp
    with inv have inv1: "visited_once e (fst (pd, t1)) (snd (pd, t1))"
      by (simp add: visited_once_def)
    from Running Suc.prems(2) st unfold
    have "directories_loop e (dicomtonifti_files_and_dirs depth e options outpath)
            (fst (look_for_directories e options pd files ([], []))) (pd, t1) = Some out"
      by simp
    from directories_loop_visits_once [OF Suc.IH inv1 this] show ?thesis .
  next
    case (Exited s1 t1)
    with same have "loaded t1 = loaded tr" by simp
    with inv Exited Suc.prems(2) st unfold show ?thesis
      by (auto simp: outcome_visited_once_def visited_once_def)
  next
    case (UndefinedBehaviour t1)
    with same have "loaded t1 = loaded tr" by simp
    with inv UndefinedBehaviour Suc.prems(2) st unfold show ?thesis
      by (auto simp: outcome_visited_once_def visited_once_def)
  qed
qed

lemma files_and_dirs_total:
  assumes fin: "finite (openable_real_paths e)"
  shows "card (openable_real_paths e - fst st) < depth
           \<Longrightarrow> dicomtonifti_files_and_dirs depth e options outpath files st \<noteq> None"
proof (induction depth arbitrary: files st)
  case 0
  then show ?case by simp
next
  case (Suc depth)
  obtain pd tr where st: "st = (pd, tr)" by (cases st)
  let ?newfiles = "filter (\<lambda>f. \<not> names_directory e f) files"
  let ?conv = "if ?newfiles \<noteq> [] then dicomtonifti_convert_files e options ?newfiles outpath tr
               else Running tr"
  note unfold = files_and_dirs_Suc [of depth e options outpath files pd tr]
  show ?case
  proof (cases ?conv)
    case (Running t1)
    from Suc.prems st have "card (openable_real_paths e - fst (pd, t1)) \<le> depth" by simp
    from directories_loop_total [OF fin Suc.IH files_and_dirs_grows this]
    show ?thesis using Running st unfold by simp
  next
    case (Exited s1 t1)
    with st unfold show ?thesis by simp
  next
    case (UndefinedBehaviour t1)
    with st unfold show ?thesis by simp
  qed
qed

lemma directories_loop_mono:
  assumes r: "\<And>files st out. r files st = Some out \<Longrightarrow> r' files st = Some out"
  shows "directories_loop e r ds st = Some out \<Longrightarrow> directories_loop e r' ds st = Some out"
proof (induction ds arbitrary: st)
  case Nil
  then show ?case by (cases st) simp
next
  case (Cons d ds)
  obtain pd tr where st: "st = (pd, tr)" by (cases st)
  show ?case
  proof (cases "GetRealPath e d \<in> pd")
    case True
    with Cons.prems st have "directories_loop e r ds (pd, tr) = Some out" by simp
    from Cons.IH [OF this] True st show ?thesis by simp
  next
    case False
    show ?thesis
    proof (cases "Directory_Load e d")
      case None
      with False Cons.prems st
      have "directories_loop e r ds (insert (GetRealPath e d) pd,
              tr @ [LoadDirectory d, Stderr (''Could not open directory '' @ d @ newline)])
            = Some out" by simp
      from Cons.IH [OF this] None False st show ?thesis by simp
    next
      case (Some listing)
      obtain path entries where listing: "listing = (path, entries)" by (cases listing)
      let ?st = "(insert (GetRealPath e d) pd, tr @ [LoadDirectory d])"
      let ?call = "r (directory_files e path entries) ?st"
      from Cons.prems st False Some listing
      have run: "(case ?call of None \<Rightarrow> None
                  | Some (Running st') \<Rightarrow> directories_loop e r ds st'
                  | Some (Exited s tr) \<Rightarrow> Some (Exited s tr)
                  | Some (UndefinedBehaviour tr) \<Rightarrow> Some (UndefinedBehaviour tr))
                 = Some out"
        by simp
      show ?thesis
      proof (cases ?call)
        case None
        with run show ?thesis by simp
      next
        case inner: (Some out1)
        from r [OF inner] have inner': "r' (directory_files e path entries) ?st = Some out1" .
        show ?thesis
        proof (cases out1)
          case (Running st1)
          with run inner have "directories_loop e r ds st1 = Some out" by simp
          from Cons.IH [OF this] inner' Running st False Some listing show ?thesis by simp
        next
          case (Exited s1 t1)
          with run inner have "out = Exited s1 t1" by simp
          with Exited inner' st False Some listing show ?thesis by simp
        next
          case (UndefinedBehaviour t1)
          with run inner have "out = UndefinedBehaviour t1" by simp
          with UndefinedBehaviour inner' st False Some listing show ?thesis by simp
        qed
      qed
    qed
  qed
qed

lemma files_and_dirs_deeper:
  "dicomtonifti_files_and_dirs depth e options outpath files st = Some out
     \<Longrightarrow> dicomtonifti_files_and_dirs (Suc depth) e options outpath files st = Some out"
proof (induction depth arbitrary: files st out)
  case 0
  then show ?case by simp
next
  case (Suc depth)
  obtain pd tr where st: "st = (pd, tr)" by (cases st)
  let ?newfiles = "filter (\<lambda>f. \<not> names_directory e f) files"
  let ?conv = "if ?newfiles \<noteq> [] then dicomtonifti_convert_files e options ?newfiles outpath tr
               else Running tr"
  note unfold = files_and_dirs_Suc [of depth e options outpath files pd tr]
  note unfold' = files_and_dirs_Suc [of "Suc depth" e options outpath files pd tr]
  show ?case
  proof (cases ?conv)
    case (Running t1)
    with Suc.prems st unfold
    have "directories_loop e (dicomtonifti_files_and_dirs depth e options outpath)
            (fst (look_for_directories e options pd files ([], []))) (pd, t1) = Some out"
      by simp
    from directories_loop_mono [of "dicomtonifti_files_and_dirs depth e options outpath"
        "dicomtonifti_files_and_dirs (Suc depth) e options outpath", OF Suc.IH this]
    show ?thesis using Running st unfold' by simp
  next
    case (Exited s1 t1)
    with Suc.prems st unfold unfold' show ?thesis by simp
  next
    case (UndefinedBehaviour t1)
    with Suc.prems st unfold unfold' show ?thesis by simp
  qed
qed

lemma files_and_dirs_any_deeper:
  "dicomtonifti_files_and_dirs depth e options outpath files st = Some out
     \<Longrightarrow> dicomtonifti_files_and_dirs (depth + n) e options outpath files st = Some out"
  by (induction n) (simp_all add: files_and_dirs_deeper del: dicomtonifti_files_and_dirs.simps)

lemma outcome_visited_once_distinct:
  "outcome_visited_once e out \<Longrightarrow> distinct (map (GetRealPath e) (loaded (outcome_trace out)))"
  by (cases out) (simp_all add: outcome_visited_once_def visited_once_def)

lemma main_terminates_visits_once:
  assumes "finite (openable_real_paths e)" and "card (openable_real_paths e) < depth"
  shows "\<exists>out. main_files_and_dirs depth e options outpath files = Some out
           \<and> outcome_visited_once e out"
proof -
  from assms(2) have "card (openable_real_paths e - fst ({}, [])) < depth" by simp
  from files_and_dirs_total [OF assms(1) this]
  obtain out where out: "dicomtonifti_files_and_dirs depth e options outpath files ({}, []) = Some out"
    by blast
  have "visited_once e (fst ({}, [])) (snd ({}, []))"
    by (simp add: visited_once_def)
  from files_and_dirs_visits_once [OF this out] out show ?thesis
    by (auto simp: main_files_and_dirs_def)
qed

text \<open>
  Claim C3.  On a file system where the directories that can be opened have finitely many
  canonical real paths (links may form cycles), the walk started by \<^verbatim>\<open>main\<close> returns or
  exits for every list of input paths, at every bound on the depth of the recursion that
  exceeds the number of these real paths; in its events no real path is loaded twice, and
  every real path loaded is in the visited set.  The visited set of any call is contained in
  the visited set it returns, a directory whose real path is in the set is skipped, and a
  call that returns within one bound returns the same within every larger bound.
\<close>

theorem walk_terminates_each_real_path_once:
  assumes "finite (openable_real_paths e)"
  shows "(\<forall>depth. card (openable_real_paths e) < depth \<longrightarrow>
            (\<exists>out. main_files_and_dirs depth e options outpath files = Some out
               \<and> outcome_visited_once e out
               \<and> distinct (map (GetRealPath e) (loaded (outcome_trace out)))))
       \<and> (\<forall>depth fs st st'.
             dicomtonifti_files_and_dirs depth e options outpath fs st = Some (Running st')
               \<longrightarrow> fst st \<subseteq> fst st')
       \<and> (\<forall>r d ds pastdirs tr. GetRealPath e d \<in> pastdirs \<longrightarrow>
             directories_loop e r (d # ds) (pastdirs, tr) = directories_loop e r ds (pastdirs, tr))
       \<and> (\<forall>depth n fs st out.
             dicomtonifti_files_and_dirs depth e options outpath fs st = Some out
               \<longrightarrow> dicomtonifti_files_and_dirs (depth + n) e options outpath fs st = Some out)"
proof (intro conjI allI impI)
  fix depth assume "card (openable_real_paths e) < depth"
  from main_terminates_visits_once [OF assms this, of options outpath files]
  show "\<exists>out. main_files_and_dirs depth e options outpath files = Some out
               \<and> outcome_visited_once e out
               \<and> distinct (map (GetRealPath e) (loaded (outcome_trace out)))"
    by (blast intro: outcome_visited_once_distinct)
next
  fix depth fs st st'
  assume "dicomtonifti_files_and_dirs depth e options outpath fs st = Some (Running st')"
  then show "fst st \<subseteq> fst st'" by (rule files_and_dirs_grows)
next
  fix r d ds pastdirs tr
  assume "GetRealPath e d \<in> pastdirs"
  then show "directories_loop e r (d # ds) (pastdirs, tr) = directories_loop e r ds (pastdirs, tr)"
    by (rule directories_loop_skip)
next
  fix depth n fs st out
  assume "dicomtonifti_files_and_dirs depth e options outpath fs st = Some out"
  then show "dicomtonifti_files_and_dirs (depth + n) e options outpath fs st = Some out"
    by (rule files_and_dirs_any_deeper)
qed

lemma example_openable: "openable_real_paths example_env = {''/data/in''}"
  by (auto simp: openable_real_paths_def example_env_def split: if_splits)

lemma example_walk_loaded:
  "map_option (\<lambda>out. loaded (outcome_trace out))
     (main_files_and_dirs 2 example_env example_options ''out'' [''in'']) = Some [''in'']"
  by code_simp

theorem walk_terminates_each_real_path_once_witness:
  "finite (openable_real_paths example_env)
   \<and> card (openable_real_paths example_env) < 2
   \<and> FileIsSymlink example_env ''in/loop''
   \<and> GetRealPath example_env ''in/loop'' = GetRealPath example_env ''in''
   \<and> (\<exists>out. main_files_and_dirs 2 example_env example_options ''out'' [''in''] = Some out
         \<and> loaded (outcome_trace out) = [''in'']
         \<and> distinct (map (GetRealPath example_env) (loaded (outcome_trace out))))"
proof -
  have fin: "finite (openable_real_paths example_env)"
    by (simp add: example_openable)
  have small: "card (openable_real_paths example_env) < 2"
    by (simp add: example_openable)
  from walk_terminates_each_real_path_once [OF fin, of example_options "''out''" "[''in'']"]
  have "\<forall>depth. card (openable_real_paths example_env) < depth \<longrightarrow>
          (\<exists>out. main_files_and_dirs depth example_env example_options ''out'' [''in''] = Some out
             \<and> outcome_visited_once example_env out
             \<and> distinct (map (GetRealPath example_env) (loaded (outcome_trace out))))"
    by (rule conjunct1)
  then have "card (openable_real_paths example_env) < 2 \<longrightarrow>
          (\<exists>out. main_files_and_dirs 2 example_env example_options ''out'' [''in''] = Some out
             \<and> outcome_visited_once example_env out
             \<and> distinct (map (GetRealPath example_env) (loaded (outcome_trace out))))"
    by (rule spec)
  with small
  obtain out where out: "main_files_and_dirs 2 example_env example_options ''out'' [''in''] = Some out"
      "distinct (map (GetRealPath example_env) (loaded (outcome_trace out)))"
    by blast
  with example_walk_loaded have "loaded (outcome_trace out) = [''in'']" by simp
  with out fin small show ?thesis by (simp add: example_env_def)
qed

subsection \<open>No step after a failure\<close>






lemma failures_fatal_RunningD:
  "failures_fatal e out \<Longrightarrow> out = Running tr \<Longrightarrow> no_failure e tr"
  by (simp add: failures_fatal_def)









subsection \<open>What is expanded\<close>

lemma directories_loop_expand:
  "GetRealPath e d \<notin> pastdirs \<Longrightarrow> Directory_Load e d = Some (path, entries) \<Longrightarrow>
   directories_loop e r (d # ds) (pastdirs, tr) =
     (case r (directory_files e path entries)
             (insert (GetRealPath e d) pastdirs, tr @ [LoadDirectory d]) of
        None \<Rightarrow> None
      | Some (Running st) \<Rightarrow> directories_loop e r ds st
      | Some (Exited s t) \<Rightarrow> Some (Exited s t)
      | Some (UndefinedBehaviour t) \<Rightarrow> Some (UndefinedBehaviour t))"
  by simp

lemma directories_loop_exactly:
  assumes r: "\<And>files st st'. fst st = GetRealPath e ` set (loaded (snd st))
                \<Longrightarrow> r files st = Some (Running st')
                \<Longrightarrow> fst st' = GetRealPath e ` set (loaded (snd st'))"
  shows "fst st = GetRealPath e ` set (loaded (snd st))
           \<Longrightarrow> directories_loop e r ds st = Some (Running st')
           \<Longrightarrow> fst st' = GetRealPath e ` set (loaded (snd st'))"
proof (induction ds arbitrary: st)
  case Nil
  then show ?case by (cases st) auto
next
  case (Cons d ds)
  obtain pd tr where st: "st = (pd, tr)" by (cases st)
  from Cons.prems(1) st have inv: "pd = GetRealPath e ` set (loaded tr)" by simp
  show ?case
  proof (cases "GetRealPath e d \<in> pd")
    case True
    with Cons.prems(2) st have "directories_loop e r ds (pd, tr) = Some (Running st')" by simp
    with Cons.IH [of "(pd, tr)"] inv show ?thesis by simp
  next
    case False
    show ?thesis
    proof (cases "Directory_Load e d")
      case None
      let ?st = "(insert (GetRealPath e d) pd,
              tr @ [LoadDirectory d, Stderr (''Could not open directory '' @ d @ newline)])"
      from None False Cons.prems(2) st
      have "directories_loop e r ds ?st = Some (Running st')" by simp
      moreover have "fst ?st = GetRealPath e ` set (loaded (snd ?st))"
        using inv by (simp add: loaded_append)
      ultimately show ?thesis using Cons.IH [of ?st] by blast
    next
      case (Some listing)
      obtain path entries where listing: "listing = (path, entries)" by (cases listing)
      let ?st = "(insert (GetRealPath e d) pd, tr @ [LoadDirectory d])"
      let ?call = "r (directory_files e path entries) ?st"
      have inv1: "fst ?st = GetRealPath e ` set (loaded (snd ?st))"
        using inv by (simp add: loaded_append)
      from Cons.prems(2) st False Some listing
      have run: "(case ?call of None \<Rightarrow> None
                  | Some (Running st') \<Rightarrow> directories_loop e r ds st'
                  | Some (Exited s tr) \<Rightarrow> Some (Exited s tr)
                  | Some (UndefinedBehaviour tr) \<Rightarrow> Some (UndefinedBehaviour tr))
                 = Some (Running st')"
        by simp
      show ?thesis
      proof (cases ?call)
        case None
        with run show ?thesis by simp
      next
        case inner: (Some out1)
        show ?thesis
        proof (cases out1)
          case (Running st1)
          with run inner have rest: "directories_loop e r ds st1 = Some (Running st')" by simp
          from inner Running have "?call = Some (Running st1)" by simp
          from r [OF inv1 this] have "fst st1 = GetRealPath e ` set (loaded (snd st1))" .
          from Cons.IH [OF this rest] show ?thesis .
        next
          case (Exited s1 t1)
          with run inner show ?thesis by simp
        next
          case (UndefinedBehaviour t1)
          with run inner show ?thesis by simp
        qed
      qed
    qed
  qed
qed

lemma directories_loop_covers:
  assumes r: "\<And>files st st'. r files st = Some (Running st') \<Longrightarrow> fst st \<subseteq> fst st'"
  shows "directories_loop e r ds st = Some (Running st')
           \<Longrightarrow> GetRealPath e ` set ds \<subseteq> fst st'"
proof (induction ds arbitrary: st)
  case Nil
  then show ?case by simp
next
  case (Cons d ds)
  obtain pd tr where st: "st = (pd, tr)" by (cases st)
  have grows: "fst st0 \<subseteq> fst st1"
    if "directories_loop e r ds0 st0 = Some (Running st1)" for ds0 st0 st1
    using r that by (rule directories_loop_grows)
  show ?case
  proof (cases "GetRealPath e d \<in> pd")
    case True
    with Cons.prems st have rest: "directories_loop e r ds (pd, tr) = Some (Running st')" by simp
    from grows [OF rest] True have "GetRealPath e d \<in> fst st'" by auto
    with Cons.IH [OF rest] show ?thesis by simp
  next
    case False
    show ?thesis
    proof (cases "Directory_Load e d")
      case None
      let ?st = "(insert (GetRealPath e d) pd,
              tr @ [LoadDirectory d, Stderr (''Could not open directory '' @ d @ newline)])"
      from None False Cons.prems st
      have rest: "directories_loop e r ds ?st = Some (Running st')" by simp
      from grows [OF rest] have "GetRealPath e d \<in> fst st'" by auto
      with Cons.IH [OF rest] show ?thesis by simp
    next
      case (Some listing)
      obtain path entries where listing: "listing = (path, entries)" by (cases listing)
      let ?st = "(insert (GetRealPath e d) pd, tr @ [LoadDirectory d])"
      let ?call = "r (directory_files e path entries) ?st"
      from Cons.prems st False Some listing
      have run: "(case ?call of None \<Rightarrow> None
                  | Some (Running st') \<Rightarrow> directories_loop e r ds st'
                  | Some (Exited s tr) \<Rightarrow> Some (Exited s tr)
                  | Some (UndefinedBehaviour tr) \<Rightarrow> Some (UndefinedBehaviour tr))
                 = Some (Running st')"
        by simp
      show ?thesis
      proof (cases ?call)
        case None
        with run show ?thesis by simp
      next
        case inner: (Some out1)
        show ?thesis
        proof (cases out1)
          case (Running st1)
          with run inner have rest: "directories_loop e r ds st1 = Some (Running st')" by simp
          from inner Running have "?call = Some (Running st1)" by simp
          from r [OF this] have "GetRealPath e d \<in> fst st1" by auto
          with grows [OF rest] have "GetRealPath e d \<in> fst st'" by auto
          with Cons.IH [OF rest] show ?thesis by simp
        next
          case (Exited s1 t1)
          with run inner show ?thesis by simp
        next
          case (UndefinedBehaviour t1)
          with run inner show ?thesis by simp
        qed
      qed
    qed
  qed
qed

lemma directories_loop_loads:
  assumes r: "\<And>files st out. fst st \<noteq> {} \<Longrightarrow> r files st = Some out
                \<Longrightarrow> set (loaded (outcome_trace out)) \<subseteq> set (loaded (snd st)) \<union> Q"
  shows "directories_loop e r ds st = Some out
           \<Longrightarrow> set (loaded (outcome_trace out)) \<subseteq> set (loaded (snd st)) \<union> set ds \<union> Q"
proof (induction ds arbitrary: st)
  case Nil
  then show ?case by (cases st) auto
next
  case (Cons d ds)
  obtain pd tr where st: "st = (pd, tr)" by (cases st)
  show ?case
  proof (cases "GetRealPath e d \<in> pd")
    case True
    with Cons.prems st have rest: "directories_loop e r ds (pd, tr) = Some out" by simp
    from Cons.IH [OF rest] st show ?thesis by auto
  next
    case False
    show ?thesis
    proof (cases "Directory_Load e d")
      case None
      let ?st = "(insert (GetRealPath e d) pd,
              tr @ [LoadDirectory d, Stderr (''Could not open directory '' @ d @ newline)])"
      from None False Cons.prems st
      have rest: "directories_loop e r ds ?st = Some out" by simp
      from Cons.IH [OF rest] st show ?thesis by (auto simp: loaded_append)
    next
      case (Some listing)
      obtain path entries where listing: "listing = (path, entries)" by (cases listing)
      let ?st = "(insert (GetRealPath e d) pd, tr @ [LoadDirectory d])"
      let ?call = "r (directory_files e path entries) ?st"
      from Cons.prems st False Some listing
      have run: "(case ?call of None \<Rightarrow> None
                  | Some (Running st') \<Rightarrow> directories_loop e r ds st'
                  | Some (Exited s tr) \<Rightarrow> Some (Exited s tr)
                  | Some (UndefinedBehaviour tr) \<Rightarrow> Some (UndefinedBehaviour tr))
                 = Some out"
        by simp
      show ?thesis
      proof (cases ?call)
        case None
        with run show ?thesis by simp
      next
        case inner: (Some out1)
        have "fst ?st \<noteq> {}" by simp
        from r [OF this inner]
        have sub1: "set (loaded (outcome_trace out1)) \<subseteq> set (loaded tr) \<union> {d} \<union> Q"
          by (auto simp: loaded_append)
        show ?thesis
        proof (cases out1)
          case (Running st1)
          with run inner have rest: "directories_loop e r ds st1 = Some out" by simp
          from Cons.IH [OF rest] sub1 Running st show ?thesis by auto
        next
          case (Exited s1 t1)
          with run inner have "out = out1" by simp
          with sub1 st show ?thesis by auto
        next
          case (UndefinedBehaviour t1)
          with run inner have "out = out1" by simp
          with sub1 st show ?thesis by auto
        qed
      qed
    qed
  qed
qed

lemma files_and_dirs_exactly:
  "fst st = GetRealPath e ` set (loaded (snd st)) \<Longrightarrow>
   dicomtonifti_files_and_dirs depth e options outpath files st = Some (Running st')
     \<Longrightarrow> fst st' = GetRealPath e ` set (loaded (snd st'))"
proof (induction depth arbitrary: files st st')
  case 0
  then show ?case by simp
next
  case (Suc depth)
  obtain pd tr where st: "st = (pd, tr)" by (cases st)
  let ?newfiles = "filter (\<lambda>f. \<not> names_directory e f) files"
  let ?conv = "if ?newfiles \<noteq> [] then dicomtonifti_convert_files e options ?newfiles outpath tr
               else Running tr"
  note unfold = files_and_dirs_Suc [of depth e options outpath files pd tr]
  have same: "loaded (events_of ?conv) = loaded tr"
    by (simp add: loaded_convert_files)
  show ?case
  proof (cases ?conv)
    case (Running t1)
    with same have "loaded t1 = loaded tr" by simp
    with Suc.prems(1) st have inv1: "fst (pd, t1) = GetRealPath e ` set (loaded (snd (pd, t1)))"
      by simp
    from Running Suc.prems(2) st unfold
    have "directories_loop e (dicomtonifti_files_and_dirs depth e options outpath)
            (fst (look_for_directories e options pd files ([], []))) (pd, t1) = Some (Running st')"
      by simp
    from directories_loop_exactly [OF Suc.IH inv1 this] show ?thesis .
  next
    case (Exited s1 t1)
    with Suc.prems(2) st unfold show ?thesis by simp
  next
    case (UndefinedBehaviour t1)
    with Suc.prems(2) st unfold show ?thesis by simp
  qed
qed

lemma files_and_dirs_loads:
  "dicomtonifti_files_and_dirs depth e options outpath files st = Some out \<Longrightarrow>
   set (loaded (outcome_trace out)) \<subseteq> set (loaded (snd st))
     \<union> set (fst (look_for_directories e options (fst st) files ([], [])))
     \<union> Collect (selected_at_deeper_level e options)"
proof (induction depth arbitrary: files st out)
  case 0
  then show ?case by simp
next
  case (Suc depth)
  obtain pd tr where st: "st = (pd, tr)" by (cases st)
  let ?newfiles = "filter (\<lambda>f. \<not> names_directory e f) files"
  let ?conv = "if ?newfiles \<noteq> [] then dicomtonifti_convert_files e options ?newfiles outpath tr
               else Running tr"
  let ?Q = "Collect (selected_at_deeper_level e options)"
  note unfold = files_and_dirs_Suc [of depth e options outpath files pd tr]
  have same: "loaded (events_of ?conv) = loaded tr"
    by (simp add: loaded_convert_files)
  have deeper: "set (loaded (outcome_trace out1)) \<subseteq> set (loaded (snd st1)) \<union> ?Q"
    if "fst st1 \<noteq> {}"
      and "dicomtonifti_files_and_dirs depth e options outpath fs st1 = Some out1"
    for fs st1 out1
  proof -
    from look_for_directories_deeper_level [OF that(1), of e options fs]
    have "set (fst (look_for_directories e options (fst st1) fs ([], []))) \<subseteq> ?Q" by auto
    with Suc.IH [OF that(2)] show ?thesis by blast
  qed
  show ?case
  proof (cases ?conv)
    case (Running t1)
    with same have l: "loaded t1 = loaded tr" by simp
    from Running Suc.prems st unfold
    have "directories_loop e (dicomtonifti_files_and_dirs depth e options outpath)
            (fst (look_for_directories e options pd files ([], []))) (pd, t1) = Some out"
      by simp
    from directories_loop_loads [where r = "dicomtonifti_files_and_dirs depth e options outpath"
        and Q = ?Q, OF deeper this] l st
    show ?thesis by simp
  next
    case (Exited s1 t1)
    with same have "loaded t1 = loaded tr" by simp
    with Exited Suc.prems st unfold show ?thesis by auto
  next
    case (UndefinedBehaviour t1)
    with same have "loaded t1 = loaded tr" by simp
    with UndefinedBehaviour Suc.prems st unfold show ?thesis by auto
  qed
qed

lemma main_expands_first_level:
  assumes "main_files_and_dirs depth e options outpath files = Some (Running (pd, tr))"
    and "d \<in> set files" and "names_directory e d"
  shows "GetRealPath e d \<in> GetRealPath e ` set (loaded tr)"
proof (cases depth)
  case 0
  with assms(1) show ?thesis by (simp add: main_files_and_dirs_def)
next
  case (Suc depth')
  let ?newfiles = "filter (\<lambda>f. \<not> names_directory e f) files"
  let ?conv = "if ?newfiles \<noteq> [] then dicomtonifti_convert_files e options ?newfiles outpath []
               else Running []"
  note unfold = files_and_dirs_Suc [of depth' e options outpath files "{}" "[]"]
  from assms(1) have run: "dicomtonifti_files_and_dirs depth e options outpath files ({}, [])
      = Some (Running (pd, tr))"
    by (simp add: main_files_and_dirs_def)
  from files_and_dirs_exactly [OF _ run] have exact: "pd = GetRealPath e ` set (loaded tr)"
    by simp
  show ?thesis
  proof (cases ?conv)
    case (Running t1)
    with run Suc unfold
    have "directories_loop e (dicomtonifti_files_and_dirs depth' e options outpath)
            (fst (look_for_directories e options {} files ([], []))) ({}, t1)
          = Some (Running (pd, tr))"
      by simp
    from directories_loop_covers [where r = "dicomtonifti_files_and_dirs depth' e options outpath",
        OF files_and_dirs_grows this]
    have "GetRealPath e ` set (filter (selected_at_first_level e) files) \<subseteq> pd"
      by (simp add: look_for_directories_first_level)
    with assms(2,3) have "GetRealPath e d \<in> pd"
      by (auto simp: selected_at_first_level_def)
    with exact show ?thesis by simp
  next
    case (Exited s1 t1)
    with run Suc unfold show ?thesis by simp
  next
    case (UndefinedBehaviour t1)
    with run Suc unfold show ?thesis by simp
  qed
qed

lemma main_loads_only_selected:
  assumes "main_files_and_dirs depth e options outpath files = Some out"
    and "d \<in> set (loaded (outcome_trace out))"
  shows "(d \<in> set files \<and> selected_at_first_level e d) \<or> selected_at_deeper_level e options d"
proof -
  from assms(1) have "dicomtonifti_files_and_dirs depth e options outpath files ({}, []) = Some out"
    by (simp add: main_files_and_dirs_def)
  from files_and_dirs_loads [OF this] assms(2) show ?thesis
    by (auto simp: look_for_directories_first_level)
qed

subsection \<open>Which directories are expanded\<close>

text \<open>
  Claim C5.  With an empty visited set, which is the first level, every name that names
  a directory is selected for expansion, whatever the recurse flag; with a visited set that
  is not empty a directory is selected only if the recurse flag is set and either the
  follow-symlinks flag is set or the directory is not a symbolic link; the names that do not
  name a directory go to the list of files unchanged and in order.  The recursive call is
  reached with visited sets that are not empty only, and the call from \<^verbatim>\<open>main\<close> runs
  the second loop on the directories selected at the first level.  The second loop expands
  a directory that was not visited and can be opened: it loads it and makes the recursive
  call on its entries, with its real path in the visited set.  So, when the walk returns,
  every directory named at the first level has had its real path loaded, whatever the
  recurse flag; and whatever the outcome, a directory that was loaded was named at the first
  level or passed the test of the deeper levels.
\<close>

theorem first_level_always_deeper_levels_gated:
  "look_for_directories e options {} files ([], []) =
     (filter (selected_at_first_level e) files, filter (\<lambda>f. \<not> names_directory e f) files)
   \<and> (pastdirs \<noteq> {} \<longrightarrow>
        look_for_directories e options pastdirs files ([], []) =
          (filter (selected_at_deeper_level e options) files,
           filter (\<lambda>f. \<not> names_directory e f) files))
   \<and> directories_loop e r ds st =
        directories_loop e (\<lambda>files st. if fst st = {} then None else r files st) ds st
   \<and> main_files_and_dirs (Suc depth) e options outpath files =
        (case (if filter (\<lambda>f. \<not> names_directory e f) files \<noteq> []
               then dicomtonifti_convert_files e options
                      (filter (\<lambda>f. \<not> names_directory e f) files) outpath []
               else Running []) of
           Running tr \<Rightarrow>
             directories_loop e (dicomtonifti_files_and_dirs depth e options outpath)
               (filter (selected_at_first_level e) files) ({}, tr)
         | Exited s tr \<Rightarrow> Some (Exited s tr)
         | UndefinedBehaviour tr \<Rightarrow> Some (UndefinedBehaviour tr))
   \<and> (GetRealPath e d \<notin> pastdirs \<and> Directory_Load e d = Some (path, entries) \<longrightarrow>
        directories_loop e r (d # ds) (pastdirs, tr0) =
          (case r (directory_files e path entries)
                  (insert (GetRealPath e d) pastdirs, tr0 @ [LoadDirectory d]) of
             None \<Rightarrow> None
           | Some (Running st) \<Rightarrow> directories_loop e r ds st
           | Some (Exited s t) \<Rightarrow> Some (Exited s t)
           | Some (UndefinedBehaviour t) \<Rightarrow> Some (UndefinedBehaviour t)))
   \<and> (main_files_and_dirs n e options outpath files = Some (Running (pd, tr))
        \<and> f \<in> set files \<and> names_directory e f \<longrightarrow>
        GetRealPath e f \<in> GetRealPath e ` set (loaded tr))
   \<and> (main_files_and_dirs n e options outpath files = Some out
        \<and> f \<in> set (loaded (outcome_trace out)) \<longrightarrow>
        (f \<in> set files \<and> selected_at_first_level e f) \<or> selected_at_deeper_level e options f)"
proof (intro conjI impI)
  show "look_for_directories e options {} files ([], []) =
     (filter (selected_at_first_level e) files, filter (\<lambda>f. \<not> names_directory e f) files)"
    by (rule look_for_directories_first_level)
next
  assume "pastdirs \<noteq> {}"
  then show "look_for_directories e options pastdirs files ([], []) =
          (filter (selected_at_deeper_level e options) files,
           filter (\<lambda>f. \<not> names_directory e f) files)"
    by (rule look_for_directories_deeper_level)
next
  show "directories_loop e r ds st =
        directories_loop e (\<lambda>files st. if fst st = {} then None else r files st) ds st"
    by (rule directories_loop_recursion_nonempty)
next
  show "main_files_and_dirs (Suc depth) e options outpath files =
        (case (if filter (\<lambda>f. \<not> names_directory e f) files \<noteq> []
               then dicomtonifti_convert_files e options
                      (filter (\<lambda>f. \<not> names_directory e f) files) outpath []
               else Running []) of
           Running tr \<Rightarrow>
             directories_loop e (dicomtonifti_files_and_dirs depth e options outpath)
               (filter (selected_at_first_level e) files) ({}, tr)
         | Exited s tr \<Rightarrow> Some (Exited s tr)
         | UndefinedBehaviour tr \<Rightarrow> Some (UndefinedBehaviour tr))"
    unfolding main_files_and_dirs_def files_and_dirs_Suc look_for_directories_first_level
    by (simp split: outcome.split)
next
  assume "GetRealPath e d \<notin> pastdirs \<and> Directory_Load e d = Some (path, entries)"
  then show "directories_loop e r (d # ds) (pastdirs, tr0) =
          (case r (directory_files e path entries)
                  (insert (GetRealPath e d) pastdirs, tr0 @ [LoadDirectory d]) of
             None \<Rightarrow> None
           | Some (Running st) \<Rightarrow> directories_loop e r ds st
           | Some (Exited s t) \<Rightarrow> Some (Exited s t)
           | Some (UndefinedBehaviour t) \<Rightarrow> Some (UndefinedBehaviour t))"
    by (simp add: directories_loop_expand)
next
  assume "main_files_and_dirs n e options outpath files = Some (Running (pd, tr))
        \<and> f \<in> set files \<and> names_directory e f"
  then show "GetRealPath e f \<in> GetRealPath e ` set (loaded tr)"
    by (blast intro: main_expands_first_level)
next
  assume "main_files_and_dirs n e options outpath files = Some out
        \<and> f \<in> set (loaded (outcome_trace out))"
  then show "(f \<in> set files \<and> selected_at_first_level e f) \<or> selected_at_deeper_level e options f"
    by (blast dest: main_loads_only_selected)
qed

lemma example_walk_without_recurse:
  "main_files_and_dirs 2 example_env (example_options\<lparr>recurse := False\<rparr>) ''out''
       [''in'', ''x.dcm'']
     = Some (Running ({''/data/in''},
         events_of (dicomtonifti_convert_files example_env (example_options\<lparr>recurse := False\<rparr>)
           [''in/a.dcm'', ''in/b.dcm''] ''out''
           (events_of (dicomtonifti_convert_files example_env
              (example_options\<lparr>recurse := False\<rparr>) [''x.dcm''] ''out'' [])
            @ [LoadDirectory ''in'']))))"
  by code_simp

theorem first_level_always_deeper_levels_gated_witness:
  "\<not> recurse (example_options\<lparr>recurse := False\<rparr>)
   \<and> look_for_directories example_env (example_options\<lparr>recurse := False\<rparr>) {}
        [''in'', ''x.dcm'', ''sub/''] ([], []) = ([''in'', ''sub/''], [''x.dcm''])
   \<and> {''/data/in''} \<noteq> {}
   \<and> look_for_directories example_env (example_options\<lparr>recurse := False\<rparr>) {''/data/in''}
        [''in'', ''x.dcm'', ''sub/''] ([], []) = ([], [''x.dcm''])
   \<and> look_for_directories example_env (example_options\<lparr>follow_symlinks := False\<rparr>)
        {''/data/in''} [''in/a.dcm'', ''in/loop'', ''in/sub/''] ([], [])
        = ([''in/sub/''], [''in/a.dcm''])
   \<and> names_directory example_env ''in''
   \<and> (\<exists>pd tr. main_files_and_dirs 2 example_env (example_options\<lparr>recurse := False\<rparr>) ''out''
                  [''in'', ''x.dcm''] = Some (Running (pd, tr))
          \<and> loaded tr = [''in'']
          \<and> GetRealPath example_env ''in'' \<in> GetRealPath example_env ` set (loaded tr))
   \<and> GetRealPath example_env ''in'' \<notin> {}
   \<and> Directory_Load example_env ''in''
        = Some (''in'', [''.'', ''..'', ''a.dcm'', ''b.dcm'', ''loop''])
   \<and> directory_files example_env ''in'' [''.'', ''..'', ''a.dcm'', ''b.dcm'', ''loop'']
        = [''in/a.dcm'', ''in/b.dcm'', ''in/loop'']
   \<and> directories_loop example_env (\<lambda>files st. Some (Running st)) [''in''] ({}, [])
        = Some (Running ({''/data/in''}, [LoadDirectory ''in'']))"
proof -
  let ?o = "example_options\<lparr>recurse := False\<rparr>"
  let ?files = "[''in'', ''x.dcm'']"
  let ?tr = "events_of (dicomtonifti_convert_files example_env ?o
           [''in/a.dcm'', ''in/b.dcm''] ''out''
           (events_of (dicomtonifti_convert_files example_env ?o [''x.dcm''] ''out'' [])
            @ [LoadDirectory ''in'']))"
  note run = example_walk_without_recurse
  have l: "loaded ?tr = [''in'']"
    by (simp add: loaded_convert_files loaded_append)
  have nd: "names_directory example_env ''in''"
    by (simp add: names_directory_def example_env_def)
  have load: "GetRealPath example_env ''in'' \<notin> {} \<and> Directory_Load example_env ''in''
        = Some (''in'', [''.'', ''..'', ''a.dcm'', ''b.dcm'', ''loop''])"
    by (simp add: example_env_def)
  have entries: "directory_files example_env ''in'' [''.'', ''..'', ''a.dcm'', ''b.dcm'', ''loop'']
        = [''in/a.dcm'', ''in/b.dcm'', ''in/loop'']"
    by (simp add: directory_files_def not_hidden_def example_env_def)
  have rp: "GetRealPath example_env ''in'' = ''/data/in''"
    by (simp add: example_env_def)
  note first = first_level_always_deeper_levels_gated [where e = example_env and options = ?o
      and files = ?files and pastdirs = "{''/data/in''}" and r = "\<lambda>files st. Some (Running st)"
      and ds = "[]" and st = "({}, [])" and depth = 1 and outpath = "''out''" and d = "''in''"
      and path = "''in''" and entries = "[''.'', ''..'', ''a.dcm'', ''b.dcm'', ''loop'']"
      and ?tr0.0 = "[]" and n = 2 and pd = "{''/data/in''}" and tr = ?tr and f = "''in''"
      and out = "Running ({''/data/in''}, ?tr)"]
  note expand = first_level_always_deeper_levels_gated [where e = example_env and options = ?o
      and files = ?files and pastdirs = "{}" and r = "\<lambda>files st. Some (Running st)"
      and ds = "[]" and st = "({}, [])" and depth = 1 and outpath = "''out''" and d = "''in''"
      and path = "''in''" and entries = "[''.'', ''..'', ''a.dcm'', ''b.dcm'', ''loop'']"
      and ?tr0.0 = "[]" and n = 2 and pd = "{''/data/in''}" and tr = ?tr and f = "''in''"
      and out = "Running ({''/data/in''}, ?tr)"]
  from first have "main_files_and_dirs 2 example_env ?o ''out'' ?files
        = Some (Running ({''/data/in''}, ?tr))
        \<and> ''in'' \<in> set ?files \<and> names_directory example_env ''in'' \<longrightarrow>
        GetRealPath example_env ''in'' \<in> GetRealPath example_env ` set (loaded ?tr)"
    by blast
  with run nd have c1: "GetRealPath example_env ''in'' \<in> GetRealPath example_env ` set (loaded ?tr)"
    by simp
  from expand have "GetRealPath example_env ''in'' \<notin> {}
        \<and> Directory_Load example_env ''in''
             = Some (''in'', [''.'', ''..'', ''a.dcm'', ''b.dcm'', ''loop'']) \<longrightarrow>
        directories_loop example_env (\<lambda>files st. Some (Running st)) (''in'' # []) ({}, []) =
          (case (\<lambda>files st. Some (Running st))
                  (directory_files example_env ''in'' [''.'', ''..'', ''a.dcm'', ''b.dcm'', ''loop''])
                  (insert (GetRealPath example_env ''in'') {}, [] @ [LoadDirectory ''in'']) of
             None \<Rightarrow> None
           | Some (Running st) \<Rightarrow> directories_loop example_env (\<lambda>files st. Some (Running st)) [] st
           | Some (Exited s t) \<Rightarrow> Some (Exited s t)
           | Some (UndefinedBehaviour t) \<Rightarrow> Some (UndefinedBehaviour t))"
    by blast
  with load have c2: "directories_loop example_env (\<lambda>files st. Some (Running st)) [''in''] ({}, [])
        = Some (Running ({''/data/in''}, [LoadDirectory ''in'']))"
    by (simp add: rp)
  have c3: "\<exists>pd tr. main_files_and_dirs 2 example_env ?o ''out'' ?files = Some (Running (pd, tr))
          \<and> loaded tr = [''in'']
          \<and> GetRealPath example_env ''in'' \<in> GetRealPath example_env ` set (loaded tr)"
    using run l c1 by blast
  have old: "\<not> recurse ?o
   \<and> look_for_directories example_env ?o {}
        [''in'', ''x.dcm'', ''sub/''] ([], []) = ([''in'', ''sub/''], [''x.dcm''])
   \<and> {''/data/in''} \<noteq> {}
   \<and> look_for_directories example_env ?o {''/data/in''}
        [''in'', ''x.dcm'', ''sub/''] ([], []) = ([], [''x.dcm''])
   \<and> look_for_directories example_env (example_options\<lparr>follow_symlinks := False\<rparr>)
        {''/data/in''} [''in/a.dcm'', ''in/loop'', ''in/sub/''] ([], [])
        = ([''in/sub/''], [''in/a.dcm''])"
    by (simp add: look_for_directories_acc names_directory_def example_env_def
        example_options_def)
  from old nd c3 load entries c2 show ?thesis by blast
qed

subsection \<open>Which failures are fatal\<close>








end
